theory Spec2Isabelle
  imports Complex_Main
begin

section \<open>Rolling empirical-distribution spike classifier (statistical/identify\_spikes.py)\<close>

text \<open>
  The embedding follows \<^verbatim>\<open>src/statistical/identify_spikes.py\<close>: the function
  \<^verbatim>\<open>build_histogram\<close>, the scan loop of the main block and the confusion matrix with its
  derived measurements. Plotting and printing are left out, and with them the report
  that the loop makes for a row labelled or known as a spike: it reads the state and
  changes no label, but it plots, and a failure of the plotting code is outside this
  model. Nothing below says that the scan of the program returns for every input.

  Conventions of the embedding:
  \<^item> a water level is a \<open>real option\<close>: \<open>None\<close> is NaN (an absent reading), \<open>Some v\<close> a finite
    value. Arithmetic on finite values is exact: the rounding error of IEEE doubles is not
    modelled. A comparison with NaN is \<open>False\<close>, an operation on NaN gives NaN.
    Where the program rounds, it can differ from the model on a reading that sits on a
    bound or on a bin edge: \<^verbatim>\<open>0.275 - 0.15\<close> is \<^verbatim>\<open>0.12500000000000003\<close> in doubles and
    \<open>1/8\<close> here, and numpy corrects a bin index against the edges it computed in doubles.
    Readings of magnitude \<open>2^53\<close> and more, for which a double cannot tell \<open>v\<close> from
    \<open>v - 1/2\<close>, are outside the model: numpy.histogram fails on a constant window of them.
  \<^item> a raised exception is \<open>Inl\<close> of an \<open>error\<close>.
  \<^item> the module-level constants (\<open>interval\<close>, \<open>min_entries\<close>, \<open>nbins\<close>, \<open>cdf_limits\<close>,
    \<open>buffer\<close>) are the fields of a record \<open>config\<close>; \<open>default_config\<close> holds the values
    written in the file.
\<close>

subsection \<open>Constants and rows\<close>

datatype error = ValueError | ZeroDivisionError

record config =
  interval :: int
  min_entries :: int
  nbins :: nat
  cdf_limits :: "real \<times> real"
  buffer :: real

text \<open>\<^verbatim>\<open>period = 1; interval = int (period * 24 * 60 / 6); min_entries = 100; nbins = 80;
cdf_limits = (0.00023, 0.99977); buffer = 0.15\<close>\<close>

definition default_config :: config where
  "default_config =
     \<lparr>interval = 240, min_entries = 100, nbins = 80,
      cdf_limits = (23 / 100000, 99977 / 100000), buffer = 15 / 100\<rparr>"

text \<open>A row of the data frame: the columns \<open>Time\<close>, \<open>raw\<close> and \<open>accepted\<close>.\<close>

record sample =
  Time :: int
  raw :: "real option"
  accepted :: "real option"

text \<open>\<^verbatim>\<open>data['delta'] = data.accepted - data.raw\<close>: NaN as soon as one operand is NaN.\<close>

definition delta :: "sample \<Rightarrow> real option" where
  "delta s =
     (case accepted s of
        None \<Rightarrow> None
      | Some a \<Rightarrow> (case raw s of None \<Rightarrow> None | Some r \<Rightarrow> Some (a - r)))"

text \<open>\<^verbatim>\<open>data['true_is_spike'] = abs (data.delta) > buffer\<close>: a comparison with NaN is False.\<close>

definition true_is_spike :: "config \<Rightarrow> sample \<Rightarrow> bool" where
  "true_is_spike cfg s = (case delta s of None \<Rightarrow> False | Some d \<Rightarrow> \<bar>d\<bar> > buffer cfg)"

subsection \<open>numpy.histogram with an integer number of bins\<close>

text \<open>
  The outer edges: \<open>(0, 1)\<close> for an empty array, else \<open>(min, max)\<close>, widened by one half on
  each side when both are equal.
\<close>

definition outer_edges :: "real list \<Rightarrow> real \<times> real" where
  "outer_edges a =
     (if a = [] then (0, 1)
      else let first_edge = Min (set a); last_edge = Max (set a)
           in if first_edge = last_edge then (first_edge - 1 / 2, last_edge + 1 / 2)
              else (first_edge, last_edge))"

text \<open>\<^verbatim>\<open>numpy.linspace (first_edge, last_edge, n + 1)\<close>\<close>

definition linspace :: "real \<Rightarrow> real \<Rightarrow> nat \<Rightarrow> real list" where
  "linspace first_edge last_edge n =
     map (\<lambda>k. first_edge + real k * ((last_edge - first_edge) / real n)) [0..<Suc n]"

text \<open>
  The bin of a value: the integer part of its relative position times the number of bins;
  a value on the last edge belongs to the last bin.
\<close>

definition bin_index :: "real \<Rightarrow> real \<Rightarrow> nat \<Rightarrow> real \<Rightarrow> nat" where
  "bin_index first_edge last_edge n v =
     (let k = nat \<lfloor>(v - first_edge) / (last_edge - first_edge) * real n\<rfloor>
      in if k = n then n - 1 else k)"

definition histogram :: "real list \<Rightarrow> nat \<Rightarrow> error + (nat list \<times> real list)" where
  "histogram a bins =
     (if bins < 1 then Inl ValueError
      else let (first_edge, last_edge) = outer_edges a;
               indices = map (bin_index first_edge last_edge bins) a
           in Inr (map (\<lambda>k. length (filter (\<lambda>j. j = k) indices)) [0..<bins],
                   linspace first_edge last_edge bins))"

subsection \<open>The cumulative distribution and its interpolated inverse\<close>

fun cumsum_from :: "real \<Rightarrow> real list \<Rightarrow> real list" where
  "cumsum_from acc [] = []"
| "cumsum_from acc (x # xs) = (acc + x) # cumsum_from (acc + x) xs"

text \<open>
  \<^verbatim>\<open>cdf = numpy.cumsum (hist/numpy.sum(hist))\<close>. When the histogram is empty the division is
  \<open>0/0\<close>: numpy warns and every entry of the result is NaN, which is \<open>None\<close> here.
\<close>

definition np_cdf :: "nat list \<Rightarrow> real list option" where
  "np_cdf hist =
     (if sum_list hist = 0 then None
      else Some (cumsum_from 0 (map (\<lambda>h. real h / real (sum_list hist)) hist)))"

text \<open>\<^verbatim>\<open>bincenter = edges[:-1] + (edges[1:] - edges[:-1])/2\<close>\<close>

definition bincenters :: "real list \<Rightarrow> real list" where
  "bincenters edges = map2 (\<lambda>l r. l + (r - l) / 2) (butlast edges) (tl edges)"

text \<open>
  \<^verbatim>\<open>interp1d (x, y, bounds_error=False)\<close> is scipy's linear interpolant. It sorts \<open>x\<close> first;
  a cumulative sum of non-negative numbers is sorted already (lemma \<open>sorted_cumsum_from\<close>
  below), so the sort changes nothing. Inside \<open>[x[0], x[-1]]\<close> it evaluates
  \<^verbatim>\<open>numpy.interp\<close>: with \<open>j\<close> the last index whose \<open>x[j] \<le> x_new\<close> (found by bisection,
  here by counting the leading entries that are \<open>\<le> x_new\<close>), the result is \<open>y[j]\<close> when \<open>j\<close>
  is the last index or \<open>x[j] = x_new\<close>, else
  \<^verbatim>\<open>slope * (x_new - x[j]) + y[j]\<close> with \<^verbatim>\<open>slope = (y[j+1] - y[j]) / (x[j+1] - x[j])\<close>.
  Outside the range the result is NaN. (Releases of scipy that do not go through
  \<^verbatim>\<open>numpy.interp\<close> agree with this except where \<open>x_new\<close> is equal to an entry of \<open>x\<close>.)
\<close>

definition np_interp :: "real list \<Rightarrow> real list \<Rightarrow> real \<Rightarrow> real" where
  "np_interp xs ys x_new =
     (let j = length (takeWhile (\<lambda>v. v \<le> x_new) xs) - 1
      in if j = length xs - 1 then ys ! j
         else if xs ! j = x_new then ys ! j
         else (ys ! Suc j - ys ! j) / (xs ! Suc j - xs ! j) * (x_new - xs ! j) + ys ! j)"

definition interp1d :: "real list option \<Rightarrow> real list \<Rightarrow> real \<Rightarrow> real option" where
  "interp1d cdf ys x_new =
     (case cdf of
        None \<Rightarrow> None
      | Some xs \<Rightarrow>
          if x_new < hd xs \<or> x_new > last xs then None else Some (np_interp xs ys x_new))"

text \<open>\<^verbatim>\<open>numpy.round (x, 3)\<close>: to the nearest multiple of 0.001, a tie going to the even one.\<close>

definition rint :: "real \<Rightarrow> int" where
  "rint x =
     (let f = \<lfloor>x\<rfloor>; d = x - of_int f
      in if d < 1 / 2 then f else if d > 1 / 2 then f + 1 else if even f then f else f + 1)"

definition round3 :: "real \<Rightarrow> real" where
  "round3 x = of_int (rint (x * 1000)) / 1000"

subsection \<open>build\_histogram\<close>

text \<open>\<^verbatim>\<open>subdata.raw.values[isfinite]\<close>: the values selected by a boolean mask.\<close>

fun select_values :: "real option list \<Rightarrow> bool list \<Rightarrow> real list" where
  "select_values (Some v # rs) (True # ms) = v # select_values rs ms"
| "select_values (r # rs) (m # ms) = select_values rs ms"
| "select_values _ _ = []"

text \<open>
  The mask of the values that enter the histogram. \<open>previous_spikes\<close> has the length of
  \<open>subdata\<close> at every call of the scan; numpy refuses operands of different lengths
  (the broadcast of a single entry is not modelled).
\<close>

definition finite_unflagged :: "sample list \<Rightarrow> bool list \<Rightarrow> error + bool list" where
  "finite_unflagged subdata previous_spikes =
     (let isfinite = map (\<lambda>s. raw s \<noteq> None) subdata
      in if length previous_spikes > 0
         then if length previous_spikes \<noteq> length subdata then Inl ValueError
              else Inr (map2 (\<lambda>f p. f \<and> \<not> p) isfinite previous_spikes)
         else Inr isfinite)"

text \<open>
  The two bounds before rounding: \<^verbatim>\<open>icdf(cdf_limits[0])\<close> and \<^verbatim>\<open>icdf(cdf_limits[1])\<close>,
  replaced by the smallest and the largest bin centre when they are not finite.
\<close>

definition icdf_bounds :: "config \<Rightarrow> nat list \<Rightarrow> real list \<Rightarrow> real \<times> real" where
  "icdf_bounds cfg hist edges =
     (let bincenter = bincenters edges;
          cdf = np_cdf hist;
          lower = (case interp1d cdf bincenter (fst (cdf_limits cfg)) of
                     None \<Rightarrow> Min (set bincenter) | Some v \<Rightarrow> v);
          upper = (case interp1d cdf bincenter (snd (cdf_limits cfg)) of
                     None \<Rightarrow> Max (set bincenter) | Some v \<Rightarrow> v)
      in (lower, upper))"

definition build_histogram :: "config \<Rightarrow> sample list \<Rightarrow> bool list \<Rightarrow> error + (real \<times> real)" where
  "build_histogram cfg subdata previous_spikes =
     (case finite_unflagged subdata previous_spikes of
        Inl e \<Rightarrow> Inl e
      | Inr isfinite \<Rightarrow>
          (case histogram (select_values (map raw subdata) isfinite) (nbins cfg) of
             Inl e \<Rightarrow> Inl e
           | Inr (hist, edges) \<Rightarrow>
               let (lower, upper) = icdf_bounds cfg hist edges
               in Inr (round3 lower - buffer cfg, round3 upper + buffer cfg)))"

subsection \<open>The scan loop\<close>

text \<open>\<^verbatim>\<open>xs[b:e]\<close> for non-negative \<open>b\<close> and \<open>e\<close>: the entries \<open>b, \<dots>, e - 1\<close> that exist.\<close>

definition slice :: "nat \<Rightarrow> nat \<Rightarrow> 'a list \<Rightarrow> 'a list" where
  "slice b e xs = take (e - b) (drop b xs)"

definition begin_index :: "config \<Rightarrow> nat \<Rightarrow> nat" where
  "begin_index cfg index = nat (max 0 (int index - interval cfg))"

definition end_index :: "nat \<Rightarrow> nat" where
  "end_index index = nat (max 0 (int index - 1))"

text \<open>\<^verbatim>\<open>subdata = data.iloc[begin_index:end_index, :]\<close>\<close>

definition window :: "config \<Rightarrow> 'a list \<Rightarrow> nat \<Rightarrow> 'a list" where
  "window cfg xs index = slice (begin_index cfg index) (end_index index) xs"

text \<open>\<^verbatim>\<open>nValid = len (subdata.raw[numpy.isfinite (subdata.raw)])\<close>\<close>

definition nValid :: "sample list \<Rightarrow> nat" where
  "nValid subdata = length (filter (\<lambda>s. raw s \<noteq> None) subdata)"

text \<open>
  \<^verbatim>\<open>this_is_spike = False
if not pandas.isnull (point.raw):
    this_is_spike = point.raw < limit_range[0] or point.raw > limit_range[1]\<close>
\<close>

definition classify :: "real option \<Rightarrow> real \<times> real \<Rightarrow> bool" where
  "classify r limit_range =
     (case r of None \<Rightarrow> False | Some v \<Rightarrow> v < fst limit_range \<or> v > snd limit_range)"

text \<open>
  One pass through the body of the loop, for a row \<open>index < length data\<close>; the state is the
  list \<open>are_spikes\<close>. The two \<^verbatim>\<open>continue\<close> leave it as it is.
\<close>

definition scan_body :: "config \<Rightarrow> sample list \<Rightarrow> nat \<Rightarrow> bool list \<Rightarrow> error + bool list" where
  "scan_body cfg data index are_spikes =
     (if int index < min_entries cfg then Inr are_spikes
      else let subdata = window cfg data index
           in if int (nValid subdata) < min_entries cfg - 1 then Inr are_spikes
              else let previous_spikes = window cfg are_spikes index
                   in case build_histogram cfg subdata previous_spikes of
                        Inl e \<Rightarrow> Inl e
                      | Inr limit_range \<Rightarrow>
                          Inr (are_spikes[index := classify (raw (data ! index)) limit_range]))"

fun scan_loop :: "config \<Rightarrow> sample list \<Rightarrow> nat list \<Rightarrow> bool list \<Rightarrow> error + bool list" where
  "scan_loop cfg data [] are_spikes = Inr are_spikes"
| "scan_loop cfg data (index # rest) are_spikes =
     (case scan_body cfg data index are_spikes of
        Inl e \<Rightarrow> Inl e
      | Inr are_spikes' \<Rightarrow> scan_loop cfg data rest are_spikes')"

text \<open>
  \<^verbatim>\<open>are_spikes = [False] * len (data)\<close>, then the loop over the rows in order; the result is
  the column \<open>pred_is_spike\<close>.
\<close>

definition scan :: "config \<Rightarrow> sample list \<Rightarrow> error + bool list" where
  "scan cfg data = scan_loop cfg data [0..<length data] (replicate (length data) False)"

text \<open>A row is evaluated when neither \<^verbatim>\<open>continue\<close> is taken for it.\<close>

definition evaluated :: "config \<Rightarrow> sample list \<Rightarrow> nat \<Rightarrow> bool" where
  "evaluated cfg data index =
     (\<not> int index < min_entries cfg \<and> \<not> int (nValid (window cfg data index)) < min_entries cfg - 1)"

subsection \<open>Confusion matrix and measurements\<close>

record confusion =
  n_predno_trueno :: nat
  n_predyes_trueno :: nat
  n_predno_trueyes :: nat
  n_predyes_trueyes :: nat

definition count_rows :: "(bool \<Rightarrow> bool \<Rightarrow> bool) \<Rightarrow> bool list \<Rightarrow> bool list \<Rightarrow> nat" where
  "count_rows f true_col pred_col = length (filter (\<lambda>b. b) (map2 f true_col pred_col))"

definition confusion_matrix :: "bool list \<Rightarrow> bool list \<Rightarrow> confusion" where
  "confusion_matrix true_col pred_col =
     \<lparr>n_predno_trueno = count_rows (\<lambda>t p. \<not> t \<and> \<not> p) true_col pred_col,
      n_predyes_trueno = count_rows (\<lambda>t p. \<not> t \<and> p) true_col pred_col,
      n_predno_trueyes = count_rows (\<lambda>t p. t \<and> \<not> p) true_col pred_col,
      n_predyes_trueyes = count_rows (\<lambda>t p. t \<and> p) true_col pred_col\<rparr>"

definition total :: "confusion \<Rightarrow> nat" where
  "total c = n_predno_trueno c + n_predno_trueyes c + n_predyes_trueno c + n_predyes_trueyes c"

text \<open>The counts are Python integers (results of \<open>len\<close>): \<open>/\<close> raises on a zero divisor.\<close>

definition py_div :: "nat \<Rightarrow> nat \<Rightarrow> error + real" where
  "py_div a b = (if b = 0 then Inl ZeroDivisionError else Inr (real a / real b))"

record metrics =
  accuracy :: real
  precision :: real
  sensitivity :: real
  error_rate :: real
  true_negative_rate :: real
  false_positive_rate :: real
  prevalence :: real

definition bind :: "error + 'a \<Rightarrow> ('a \<Rightarrow> error + 'b) \<Rightarrow> error + 'b" where
  "bind r f = (case r of Inl e \<Rightarrow> Inl e | Inr v \<Rightarrow> f v)"

definition compute_metrics :: "confusion \<Rightarrow> error + metrics" where
  "compute_metrics c =
     (let total_trueyes = n_predno_trueyes c + n_predyes_trueyes c;
          total_trueno = n_predno_trueno c + n_predyes_trueno c;
          total_predyes = n_predyes_trueyes c + n_predyes_trueno c
      in bind (py_div (n_predno_trueno c + n_predyes_trueyes c) (total c)) (\<lambda>acc.
         bind (py_div (n_predyes_trueyes c) total_predyes) (\<lambda>prec.
         bind (py_div (n_predyes_trueyes c) total_trueyes) (\<lambda>sens.
         bind (py_div (n_predyes_trueno c + n_predno_trueyes c) (total c)) (\<lambda>err.
         bind (py_div (n_predno_trueno c) total_trueno) (\<lambda>tnr.
         bind (py_div (n_predyes_trueno c) total_trueno) (\<lambda>fpr.
         bind (py_div (n_predno_trueyes c + n_predyes_trueyes c) (total c)) (\<lambda>prev.
         Inr \<lparr>accuracy = acc, precision = prec, sensitivity = sens, error_rate = err,
              true_negative_rate = tnr, false_positive_rate = fpr, prevalence = prev\<rparr>))))))))"

text \<open>The main block after the data is read: the scan, then the summary of its performance.\<close>

definition evaluate :: "config \<Rightarrow> sample list \<Rightarrow> error + (bool list \<times> confusion \<times> metrics)" where
  "evaluate cfg data =
     bind (scan cfg data) (\<lambda>pred_is_spike.
       let c = confusion_matrix (map (true_is_spike cfg) data) pred_is_spike
       in bind (compute_metrics c) (\<lambda>m. Inr (pred_is_spike, c, m)))"

subsection \<open>The estimator in other words\<close>

text \<open>
  The estimator as the specification words it: the smallest bin centre whose cumulative
  probability is at least the target probability, and nothing when no bin centre has one
  (a comparison with NaN is False).
\<close>

definition empirical_quantile :: "real list option \<Rightarrow> real list \<Rightarrow> real \<Rightarrow> real option" where
  "empirical_quantile cdf bincenter p =
     (case cdf of
        None \<Rightarrow> None
      | Some xs \<Rightarrow>
          let qualifying = map snd (filter (\<lambda>(c, b). p \<le> c) (zip xs bincenter))
          in if qualifying = [] then None else Some (Min (set qualifying)))"

definition quantile_bounds :: "config \<Rightarrow> nat list \<Rightarrow> real list \<Rightarrow> real \<times> real" where
  "quantile_bounds cfg hist edges =
     (let bincenter = bincenters edges;
          cdf = np_cdf hist;
          lower = (case empirical_quantile cdf bincenter (fst (cdf_limits cfg)) of
                     None \<Rightarrow> Min (set bincenter) | Some v \<Rightarrow> v);
          upper = (case empirical_quantile cdf bincenter (snd (cdf_limits cfg)) of
                     None \<Rightarrow> Max (set bincenter) | Some v \<Rightarrow> v)
      in (lower, upper))"

text \<open>
  Linear interpolation, as a relation: \<open>v\<close> is the value at \<open>p\<close> of the broken line through
  the points \<open>(cdf[j], bincenter[j])\<close>, read at the last index \<open>j\<close> with \<open>cdf[j] \<le> p\<close>.
\<close>

definition interpolates :: "real list \<Rightarrow> real list \<Rightarrow> real \<Rightarrow> real \<Rightarrow> bool" where
  "interpolates cdf bincenter p v =
     (\<exists>j. j < length cdf \<and> cdf ! j \<le> p \<and> (Suc j < length cdf \<longrightarrow> p < cdf ! Suc j) \<and>
          (if Suc j = length cdf \<or> cdf ! j = p then v = bincenter ! j
           else v = (bincenter ! Suc j - bincenter ! j) / (cdf ! Suc j - cdf ! j) * (p - cdf ! j)
                    + bincenter ! j))"

subsection \<open>Example rows and constants\<close>

text \<open>A row with the reading \<open>v\<close> in both columns.\<close>

definition reading :: "real \<Rightarrow> sample" where
  "reading v = \<lparr>Time = 0, raw = Some v, accepted = Some v\<rparr>"

text \<open>Small constants, for short examples: a window of three rows, two bins.\<close>

definition tiny_config :: config where
  "tiny_config =
     \<lparr>interval = 3, min_entries = 1, nbins = 2, cdf_limits = (1 / 4, 3 / 4), buffer = 1 / 10\<rparr>"

text \<open>
  Small constants with a warm-up period of two rows, and three rows: two at level 0, then
  a raw reading of 5 that was accepted as 0. The last row is evaluated on a window that
  holds row 0.
\<close>

definition short_config :: config where
  "short_config =
     \<lparr>interval = 3, min_entries = 2, nbins = 2, cdf_limits = (1 / 4, 3 / 4), buffer = 1 / 10\<rparr>"

definition short_rows :: "sample list" where
  "short_rows = [reading 0, reading 0, \<lparr>Time = 0, raw = Some 5, accepted = Some 0\<rparr>]"

text \<open>
  The readings of a window of 99 rows, 98 at level 0 and one at level 8000, and the
  histogram of the window over 80 bins.
\<close>

definition spiky_values :: "real list" where
  "spiky_values = replicate 98 0 @ [8000]"

definition spiky_hist :: "nat list" where
  "spiky_hist = 98 # replicate 78 0 @ [1]"

text \<open>
  A series of 341 rows whose level shifts for good after the warm-up period: 100 rows at
  level 0, then 241 rows at level 1000.
\<close>

definition level_shift_rows :: "sample list" where
  "level_shift_rows = replicate 100 (reading 0) @ replicate 241 (reading 1000)"

section \<open>Properties of the scan loop\<close>

lemma length_scan_body: "scan_body cfg data i st = Inr st' \<Longrightarrow> length st' = length st"
  by (auto simp: scan_body_def Let_def split: if_splits sum.splits)

lemma scan_body_nth: "scan_body cfg data i st = Inr st' \<Longrightarrow> j \<noteq> i \<Longrightarrow> st' ! j = st ! j"
  by (auto simp: scan_body_def Let_def split: if_splits sum.splits)

lemma scan_body_warmup: "int i < min_entries cfg \<Longrightarrow> scan_body cfg data i st = Inr st"
  by (simp add: scan_body_def)

lemma scan_body_keeps_warmup:
  "scan_body cfg data i st = Inr st' \<Longrightarrow> int j < min_entries cfg \<Longrightarrow> st' ! j = st ! j"
  by (cases "j = i") (auto simp: scan_body_warmup scan_body_nth)

lemma length_scan_loop: "scan_loop cfg data is st = Inr ls \<Longrightarrow> length ls = length st"
proof (induction "is" arbitrary: st)
  case Nil
  then show ?case by simp
next
  case (Cons i "is")
  then show ?case
    by (auto split: sum.splits dest: length_scan_body)
qed


lemma scan_loop_keeps_warmup:
  "scan_loop cfg data is st = Inr ls \<Longrightarrow> int j < min_entries cfg \<Longrightarrow> ls ! j = st ! j"
proof (induction "is" arbitrary: st)
  case Nil
  then show ?case by simp
next
  case (Cons i "is")
  then show ?case
    by (auto split: sum.splits simp: scan_body_keeps_warmup)
qed

lemma scan_loop_append:
  "scan_loop cfg data (xs @ ys) st = bind (scan_loop cfg data xs st) (scan_loop cfg data ys)"
  by (induction xs arbitrary: st) (auto simp: bind_def split: sum.splits)

lemma length_scan: "scan cfg data = Inr ls \<Longrightarrow> length ls = length data"
  by (auto simp: scan_def dest: length_scan_loop)

text \<open>
  C8: a row of the warm-up period (\<open>index < min_entries\<close>) leaves the loop body at the
  first \<^verbatim>\<open>continue\<close> with the state as it was, and its final label is False.
\<close>

theorem warmup_label_False:
  "scan cfg data = Inr ls \<Longrightarrow> i < length data \<Longrightarrow> int i < min_entries cfg \<Longrightarrow>
     ls ! i = False \<and> (\<forall>st. scan_body cfg data i st = Inr st)"
  by (auto simp: scan_def scan_body_warmup dest: scan_loop_keeps_warmup)



section \<open>Interpolation and rounding are monotone\<close>

lemma length_takeWhile_mono:
  "(\<And>v. P v \<Longrightarrow> Q v) \<Longrightarrow> length (takeWhile P xs) \<le> length (takeWhile Q xs)"
  by (induction xs) auto

lemma takeWhile_le_facts:
  fixes xs :: "real list"
  assumes "xs \<noteq> []" and "hd xs \<le> x"
  defines "l \<equiv> length (takeWhile (\<lambda>v. v \<le> x) xs)"
  shows "0 < l" and "l \<le> length xs" and "xs ! (l - 1) \<le> x"
    and "l < length xs \<Longrightarrow> x < xs ! l"
proof -
  show pos: "0 < l"
    using assms by (cases xs) (auto simp: l_def)
  show "l \<le> length xs"
    by (simp add: l_def length_takeWhile_le)
  have "takeWhile (\<lambda>v. v \<le> x) xs ! (l - 1) \<in> set (takeWhile (\<lambda>v. v \<le> x) xs)"
    using pos by (simp add: l_def)
  then have "takeWhile (\<lambda>v. v \<le> x) xs ! (l - 1) \<le> x"
    by (blast dest: set_takeWhileD)
  then show "xs ! (l - 1) \<le> x"
    using pos by (simp add: l_def takeWhile_nth)
  show "x < xs ! l" if "l < length xs"
    using that nth_length_takeWhile[of "\<lambda>v. v \<le> x" xs] by (simp add: l_def)
qed

lemma np_interp_unfold:
  "j = length (takeWhile (\<lambda>v. v \<le> x) xs) - 1 \<Longrightarrow>
   np_interp xs ys x =
     (if j = length xs - 1 then ys ! j
      else if xs ! j = x then ys ! j
      else (ys ! Suc j - ys ! j) / (xs ! Suc j - xs ! j) * (x - xs ! j) + ys ! j)"
  unfolding np_interp_def Let_def by simp

lemma np_interp_between:
  assumes "xs \<noteq> []" and "length ys = length xs" and "sorted ys" and "hd xs \<le> x"
  defines "j \<equiv> length (takeWhile (\<lambda>v. v \<le> x) xs) - 1"
  shows "ys ! j \<le> np_interp xs ys x \<and> np_interp xs ys x \<le> ys ! min (Suc j) (length xs - 1)"
proof -
  note f = takeWhile_le_facts[OF assms(1,4)]
  have jd: "j = length (takeWhile (\<lambda>v. v \<le> x) xs) - 1"
    unfolding j_def by (rule refl)
  have jn: "j < length xs" using f(1,2) unfolding j_def by arith
  show ?thesis
  proof (cases "j = length xs - 1 \<or> xs ! j = x")
    case True
    then have v: "np_interp xs ys x = ys ! j"
      using np_interp_unfold[OF jd, of ys] by auto
    have "ys ! j \<le> ys ! min (Suc j) (length xs - 1)"
      using assms(2,3) jn by (intro sorted_nth_mono) auto
    with v show ?thesis by simp
  next
    case False
    then have sj: "Suc j < length xs" using jn by arith
    have l: "length (takeWhile (\<lambda>v. v \<le> x) xs) = Suc j"
      using f(1) unfolding j_def by arith
    have lo: "xs ! j < x" using f(3) False unfolding j_def by auto
    have hi: "x < xs ! Suc j" using f(4) sj l by simp
    have yy: "ys ! j \<le> ys ! Suc j"
      using assms(2,3) sj by (intro sorted_nth_mono) auto
    define t where "t = (x - xs ! j) / (xs ! Suc j - xs ! j)"
    have t: "0 \<le> t" "t \<le> 1" using lo hi by (simp_all add: t_def)
    have v: "np_interp xs ys x = ys ! j + t * (ys ! Suc j - ys ! j)"
      using False np_interp_unfold[OF jd, of ys] by (simp add: t_def)
    have "0 \<le> t * (ys ! Suc j - ys ! j)" using t yy by simp
    moreover have "t * (ys ! Suc j - ys ! j) \<le> 1 * (ys ! Suc j - ys ! j)"
      using t yy by (intro mult_right_mono) auto
    moreover have "min (Suc j) (length xs - 1) = Suc j" using sj by arith
    ultimately show ?thesis using v by simp
  qed
qed

lemma np_interp_mono:
  assumes "xs \<noteq> []" and "length ys = length xs" and "sorted ys" and "hd xs \<le> p" and "p \<le> q"
  shows "np_interp xs ys p \<le> np_interp xs ys q"
proof -
  define jp where "jp = length (takeWhile (\<lambda>v. v \<le> p) xs) - 1"
  define jq where "jq = length (takeWhile (\<lambda>v. v \<le> q) xs) - 1"
  have hq: "hd xs \<le> q" using assms(4,5) by simp
  note fp = takeWhile_le_facts[OF assms(1,4)]
  note fq = takeWhile_le_facts[OF assms(1) hq]
  note bp = np_interp_between[OF assms(1-4), folded jp_def]
  note bq = np_interp_between[OF assms(1-3) hq, folded jq_def]
  have "length (takeWhile (\<lambda>v. v \<le> p) xs) \<le> length (takeWhile (\<lambda>v. v \<le> q) xs)"
    using assms(5) by (intro length_takeWhile_mono) simp
  then have le: "jp \<le> jq" by (simp add: jp_def jq_def)
  have jqn: "jq < length xs" using fq(1,2) unfolding jq_def by arith
  show ?thesis
  proof (cases "jp < jq")
    case True
    then have "ys ! min (Suc jp) (length xs - 1) \<le> ys ! jq"
      using assms(2,3) jqn by (intro sorted_nth_mono) auto
    with bp bq show ?thesis by linarith
  next
    case False
    then have eq: "jq = jp" using le by simp
    show ?thesis
    proof (cases "jp = length xs - 1 \<or> xs ! jp = p")
      case True
      then have "np_interp xs ys p = ys ! jp"
        using np_interp_unfold[OF jp_def, of ys] by auto
      with bq eq show ?thesis by simp
    next
      case False
      then have sj: "Suc jp < length xs" using jqn eq by arith
      have lp: "xs ! jp < p" using fp(3) False unfolding jp_def by auto
      then have nq: "xs ! jp \<noteq> q" using assms(5) by simp
      have lq: "length (takeWhile (\<lambda>v. v \<le> q) xs) = Suc jp"
        using fq(1) eq unfolding jq_def by arith
      have hi: "q < xs ! Suc jp" using fq(4) sj lq by simp
      have yy: "ys ! jp \<le> ys ! Suc jp"
        using assms(2,3) sj by (intro sorted_nth_mono) auto
      define s where "s = (ys ! Suc jp - ys ! jp) / (xs ! Suc jp - xs ! jp)"
      have s: "0 \<le> s" using yy lp hi assms(5) by (simp add: s_def)
      have vp: "np_interp xs ys p = s * (p - xs ! jp) + ys ! jp"
        using False np_interp_unfold[OF jp_def, of ys] by (simp add: s_def)
      have vq: "np_interp xs ys q = s * (q - xs ! jp) + ys ! jp"
        using False nq sj eq np_interp_unfold[OF jq_def, of ys] by (simp add: s_def)
      have "s * (p - xs ! jp) \<le> s * (q - xs ! jp)"
        using s assms(5) by (intro mult_left_mono) auto
      with vp vq show ?thesis by simp
    qed
  qed
qed

lemma rint_near: "x - 1 / 2 \<le> of_int (rint x) \<and> of_int (rint x) \<le> x + 1 / 2"
proof -
  define f where "f = \<lfloor>x\<rfloor>"
  have "of_int f \<le> x" "x < of_int f + 1" unfolding f_def by linarith+
  then show ?thesis unfolding rint_def Let_def f_def[symmetric] by auto
qed

lemma rint_mono: "x \<le> y \<Longrightarrow> rint x \<le> rint y"
proof (cases "x = y")
  case True
  then show ?thesis by simp
next
  case False
  assume "x \<le> y"
  with False have "x < y" by simp
  then have "(of_int (rint x) :: real) - 1 < of_int (rint y)"
    using rint_near[of x] rint_near[of y] by linarith
  then have "rint x - 1 < rint y" by linarith
  then show ?thesis by simp
qed

lemma round3_mono: "x \<le> y \<Longrightarrow> round3 x \<le> round3 y"
  using rint_mono[of "x * 1000" "y * 1000"] by (simp add: round3_def divide_right_mono)

section \<open>The histogram, its bin centres and the cumulative distribution\<close>

lemma outer_edges_less: "fst (outer_edges a) < snd (outer_edges a)"
proof (cases "a = []")
  case True
  then show ?thesis by (simp add: outer_edges_def)
next
  case False
  then have "Min (set a) \<le> Max (set a)" by simp
  then show ?thesis using False by (auto simp: outer_edges_def Let_def less_le)
qed

lemma histogram_Inr:
  "0 < n \<Longrightarrow> \<exists>hist. histogram a n = Inr (hist, linspace (fst (outer_edges a)) (snd (outer_edges a)) n)
     \<and> length hist = n"
  by (simp add: histogram_def split_beta Let_def)

lemma histogram_Inl: "histogram a 0 = Inl ValueError"
  by (simp add: histogram_def)

lemma histogram_cases:
  assumes "histogram a n = Inr (hist, edges)"
  shows "0 < n" and "length hist = n"
    and "edges = linspace (fst (outer_edges a)) (snd (outer_edges a)) n"
  using assms by (auto simp: histogram_def split_beta Let_def split: if_splits)

lemma bincenters_linspace:
  "bincenters (linspace lo hi n) = map (\<lambda>k. lo + (real k + 1 / 2) * ((hi - lo) / real n)) [0..<n]"
proof (rule nth_equalityI)
  show "length (bincenters (linspace lo hi n)) = length (map (\<lambda>k. lo + (real k + 1 / 2) * ((hi - lo) / real n)) [0..<n])"
    by (simp add: bincenters_def linspace_def)
next
  fix i assume "i < length (bincenters (linspace lo hi n))"
  then have i: "i < n" by (simp add: bincenters_def linspace_def)
  define d where "d = (hi - lo) / real n"
  have e: "length (linspace lo hi n) = Suc n" by (simp add: linspace_def)
  have nth: "linspace lo hi n ! k = lo + real k * d" if "k \<le> n" for k
    using that unfolding linspace_def d_def by (simp del: upt_Suc add: less_Suc_eq_le)
  have "bincenters (linspace lo hi n) ! i
      = linspace lo hi n ! i + (linspace lo hi n ! Suc i - linspace lo hi n ! i) / 2"
    using i e by (simp add: bincenters_def nth_butlast nth_tl)
  also have "\<dots> = lo + real i * d + (lo + real (Suc i) * d - (lo + real i * d)) / 2"
    using i by (simp only: nth Suc_leI less_imp_le)
  also have "\<dots> = lo + (real i + 1 / 2) * d"
    by (simp add: algebra_simps)
  finally show "bincenters (linspace lo hi n) ! i
      = map (\<lambda>k. lo + (real k + 1 / 2) * ((hi - lo) / real n)) [0..<n] ! i"
    using i by (simp add: d_def)
qed

lemma sorted_bincenters: "lo \<le> hi \<Longrightarrow> sorted (bincenters (linspace lo hi n))"
proof -
  assume h: "lo \<le> hi"
  define d where "d = (hi - lo) / real n"
  have d: "0 \<le> d" using h by (simp add: d_def)
  have m: "lo + (real r + 1 / 2) * d \<le> lo + (real s + 1 / 2) * d" if "r \<le> s" for r s :: nat
    using that d by (simp add: mult_right_mono)
  have "sorted_wrt (\<lambda>r s. lo + (real r + 1 / 2) * d \<le> lo + (real s + 1 / 2) * d) [0..<n]"
    by (rule sorted_wrt_mono_rel[of _ "(\<le>)"]) (use m in auto)
  then show ?thesis by (simp add: bincenters_linspace sorted_map d_def)
qed

lemma length_bincenters: "length (bincenters (linspace lo hi n)) = n"
  by (simp add: bincenters_linspace)

lemma length_cumsum_from: "length (cumsum_from acc xs) = length xs"
  by (induction xs arbitrary: acc) auto

lemma np_cdf_Some: "np_cdf hist = Some cdf \<Longrightarrow> length cdf = length hist \<and> sum_list hist \<noteq> 0"
  by (auto simp: np_cdf_def length_cumsum_from split: if_splits)

section \<open>The confidence interval\<close>

lemma bincenters_within:
  assumes "lo \<le> hi" and "v \<in> set (bincenters (linspace lo hi n))"
  shows "lo \<le> v \<and> v \<le> hi"
proof -
  define d where "d = (hi - lo) / real n"
  obtain k where k: "k < n" and v: "v = lo + (real k + 1 / 2) * d"
    using assms(2) by (auto simp: bincenters_linspace d_def)
  have d: "0 \<le> d" using assms(1) by (simp add: d_def)
  have nd: "real n * d = hi - lo" using k by (simp add: d_def)
  have "(real k + 1 / 2) * d \<le> real n * d"
    using k d by (intro mult_right_mono) auto
  moreover have "0 \<le> (real k + 1 / 2) * d" using d by simp
  ultimately show ?thesis using v nd by simp
qed

lemma interp1d_range:
  assumes "xs \<noteq> []" and "length ys = length xs" and "sorted ys"
    and "interp1d (Some xs) ys x = Some v"
  shows "Min (set ys) \<le> v \<and> v \<le> Max (set ys)"
proof -
  from assms(4) have r: "hd xs \<le> x" and v: "v = np_interp xs ys x"
    by (auto simp: interp1d_def split: if_splits)
  define j where "j = length (takeWhile (\<lambda>v. v \<le> x) xs) - 1"
  note b = np_interp_between[OF assms(1-3) r, folded j_def]
  note f = takeWhile_le_facts[OF assms(1) r]
  have jn: "j < length ys" using f(1,2) assms(2) unfolding j_def by arith
  have kn: "min (Suc j) (length xs - 1) < length ys" using assms(1,2) by (cases xs) auto
  have "Min (set ys) \<le> ys ! j" using jn by simp
  moreover have "ys ! min (Suc j) (length xs - 1) \<le> Max (set ys)" using kn by simp
  ultimately show ?thesis using b v by linarith
qed

lemma icdf_bounds_ordered:
  assumes "0 < n" and "length hist = n" and "lo \<le> hi"
    and "fst (cdf_limits cfg) \<le> snd (cdf_limits cfg)"
  defines "bc \<equiv> bincenters (linspace lo hi n)"
  defines "b \<equiv> icdf_bounds cfg hist (linspace lo hi n)"
  shows "Min (set bc) \<le> fst b \<and> fst b \<le> snd b \<and> snd b \<le> Max (set bc)"
proof -
  have ne: "bc \<noteq> []" using assms(1) length_bincenters[of lo hi n] unfolding bc_def by auto
  have mm: "Min (set bc) \<le> Max (set bc)" using ne by simp
  have so: "sorted bc" unfolding bc_def by (rule sorted_bincenters[OF assms(3)])
  show ?thesis
  proof (cases "np_cdf hist")
    case None
    then show ?thesis using mm by (simp add: b_def icdf_bounds_def bc_def interp1d_def Let_def)
  next
    case (Some xs)
    then have lx: "length xs = n" using np_cdf_Some[OF Some] assms(2) by simp
    then have xne: "xs \<noteq> []" using assms(1) by auto
    have ly: "length bc = length xs" using lx by (simp add: bc_def length_bincenters)
    note rg = interp1d_range[OF xne ly so]
    define p where "p = fst (cdf_limits cfg)"
    define q where "q = snd (cdf_limits cfg)"
    have fb: "fst b = (case interp1d (Some xs) bc p of None \<Rightarrow> Min (set bc) | Some v \<Rightarrow> v)"
      and sb: "snd b = (case interp1d (Some xs) bc q of None \<Rightarrow> Max (set bc) | Some v \<Rightarrow> v)"
      unfolding b_def icdf_bounds_def Let_def Some bc_def p_def q_def by simp_all
    have f1: "Min (set bc) \<le> fst b \<and> fst b \<le> Max (set bc)"
      using rg[of p] mm by (auto simp: fb split: option.splits)
    have s1: "Min (set bc) \<le> snd b \<and> snd b \<le> Max (set bc)"
      using rg[of q] mm by (auto simp: sb split: option.splits)
    have "fst b \<le> snd b"
    proof (cases "interp1d (Some xs) bc p")
      case None
      then show ?thesis using s1 by (simp add: fb)
    next
      case pv: (Some u)
      show ?thesis
      proof (cases "interp1d (Some xs) bc q")
        case None
        then show ?thesis using f1 by (simp add: sb)
      next
        case qv: (Some w)
        from pv have hp: "hd xs \<le> p" and u: "u = np_interp xs bc p"
          by (auto simp: interp1d_def split: if_splits)
        from qv have w: "w = np_interp xs bc q"
          by (auto simp: interp1d_def split: if_splits)
        have "p \<le> q" using assms(4) by (simp add: p_def q_def)
        then have "u \<le> w" unfolding u w by (rule np_interp_mono[OF xne ly so hp])
        then show ?thesis by (simp add: fb sb pv qv)
      qed
    qed
    with f1 s1 show ?thesis by simp
  qed
qed

lemma build_histogram_Inr:
  assumes "build_histogram cfg subdata previous_spikes = Inr (lower, upper)"
  obtains isfinite hist edges where "finite_unflagged subdata previous_spikes = Inr isfinite"
    and "histogram (select_values (map raw subdata) isfinite) (nbins cfg) = Inr (hist, edges)"
    and "lower = round3 (fst (icdf_bounds cfg hist edges)) - buffer cfg"
    and "upper = round3 (snd (icdf_bounds cfg hist edges)) + buffer cfg"
  using assms by (auto simp: build_histogram_def split_beta split: sum.splits)

text \<open>
  C5: with the target probabilities of the file, 0.00023 and 0.99977, and any non-negative
  buffer, every interval that \<open>build_histogram\<close> returns, for any window, any labels and
  any number of bins, has its lower bound below its upper bound.
\<close>

theorem interval_ordered:
  assumes "build_histogram cfg subdata previous_spikes = Inr (lower, upper)"
    and "cdf_limits cfg = (23 / 100000, 99977 / 100000)" and "0 \<le> buffer cfg"
  shows "lower \<le> upper"
proof -
  obtain isfinite hist edges where
    h: "histogram (select_values (map raw subdata) isfinite) (nbins cfg) = Inr (hist, edges)"
    and l: "lower = round3 (fst (icdf_bounds cfg hist edges)) - buffer cfg"
    and u: "upper = round3 (snd (icdf_bounds cfg hist edges)) + buffer cfg"
    using assms(1) by (rule build_histogram_Inr)
  note hc = histogram_cases[OF h]
  have pq: "fst (cdf_limits cfg) \<le> snd (cdf_limits cfg)"
    unfolding assms(2) by simp
  have "fst (icdf_bounds cfg hist edges) \<le> snd (icdf_bounds cfg hist edges)"
    unfolding hc(3)
    using icdf_bounds_ordered[OF hc(1,2) less_imp_le[OF outer_edges_less] pq] by simp
  then have "round3 (fst (icdf_bounds cfg hist edges)) \<le> round3 (snd (icdf_bounds cfg hist edges))"
    by (rule round3_mono)
  then show ?thesis using assms(3) by (simp add: l u)
qed

section \<open>The evaluator, the raw column and the window\<close>

lemma total_confusion_matrix:
  "length t = length p \<Longrightarrow> total (confusion_matrix t p) = length t"
  by (induction t p rule: list_induct2) (auto simp: total_def confusion_matrix_def count_rows_def)

text \<open>
  C6, as the code has it: the four counts of the confusion matrix add up to the number of
  rows of the data frame, the rows of the warm-up period and the skipped rows included.
\<close>

theorem confusion_total_all_rows:
  "scan cfg data = Inr ls \<Longrightarrow>
     total (confusion_matrix (map (true_is_spike cfg) data) ls) = length data"
  using total_confusion_matrix[of "map (true_is_spike cfg) data" ls] length_scan[of cfg data ls]
  by simp

lemma scan_single_default: "scan default_config [reading v] = Inr [False]"
  by (simp add: scan_def scan_body_def default_config_def)

text \<open>
  C6 as stated fails on a single row: the row is in the warm-up period, so no row is
  evaluated, and the four counts add up to one.
\<close>

theorem confusion_total_counterexample:
  "scan default_config [reading 0] = Inr [False] \<and>
   total (confusion_matrix (map (true_is_spike default_config) [reading 0]) [False])
     \<noteq> length (filter (evaluated default_config [reading 0]) [0..<length [reading 0]])"
proof -
  have "total (confusion_matrix (map (true_is_spike default_config) [reading 0]) [False]) = 1"
    by (simp add: total_confusion_matrix)
  moreover have "filter (evaluated default_config [reading 0]) [0..<length [reading 0]] = []"
    by (simp add: evaluated_def default_config_def)
  ultimately show ?thesis by (simp add: scan_single_default)
qed

lemma window_map: "map f (window cfg xs i) = window cfg (map f xs) i"
  by (simp add: window_def slice_def take_map drop_map)

lemma length_window: "length xs = length ys \<Longrightarrow> length (window cfg xs i) = length (window cfg ys i)"
  by (simp add: window_def slice_def)

lemma finite_unflagged_raw:
  "map raw s = map raw s' \<Longrightarrow> finite_unflagged s p = finite_unflagged s' p"
proof -
  assume h: "map raw s = map raw s'"
  have "map (\<lambda>x. raw x \<noteq> None) z = map (\<lambda>r. r \<noteq> None) (map raw z)" for z :: "sample list"
    by simp
  moreover have "length s = length s'" using h by (rule map_eq_imp_length_eq)
  ultimately show ?thesis using h unfolding finite_unflagged_def by (simp only:)
qed

lemma build_histogram_raw:
  "map raw s = map raw s' \<Longrightarrow> build_histogram cfg s p = build_histogram cfg s' p"
proof -
  assume h: "map raw s = map raw s'"
  show ?thesis unfolding build_histogram_def finite_unflagged_raw[OF h] h ..
qed

lemma nValid_raw: "map raw s = map raw s' \<Longrightarrow> nValid s = nValid s'"
proof -
  assume h: "map raw s = map raw s'"
  have n: "nValid z = length (filter (\<lambda>r. r \<noteq> None) (map raw z))" for z
    by (simp add: nValid_def filter_map o_def)
  show ?thesis by (simp only: n h)
qed

lemma scan_body_raw:
  assumes "map raw d = map raw d'" and "i < length d"
  shows "scan_body cfg d i st = scan_body cfg d' i st"
proof -
  have w: "map raw (window cfg d i) = map raw (window cfg d' i)"
    using assms(1) by (simp add: window_map)
  have "raw (d ! i) = map raw d ! i" using assms(2) by simp
  also have "\<dots> = raw (d' ! i)"
    using assms map_eq_imp_length_eq[OF assms(1)] by simp
  finally have r: "raw (d ! i) = raw (d' ! i)" .
  show ?thesis
    unfolding scan_body_def Let_def nValid_raw[OF w] build_histogram_raw[OF w] r ..
qed

lemma scan_loop_raw:
  assumes "map raw d = map raw d'" and "\<forall>i\<in>set is. i < length d"
  shows "scan_loop cfg d is st = scan_loop cfg d' is st"
  using assms(2)
proof (induction "is" arbitrary: st)
  case Nil
  then show ?case by simp
next
  case (Cons i "is")
  then show ?case using scan_body_raw[OF assms(1), of i cfg st] by (simp split: sum.splits)
qed

text \<open>
  The scan reads the \<open>raw\<close> column only: the columns \<open>Time\<close> and \<open>accepted\<close> have no part in
  the labels. That two runs of the program on the same input agree is built into this
  embedding, where the scan is a function, and is not a theorem of it.
\<close>

lemma scan_depends_on_raw_only:
  "map raw d = map raw d' \<Longrightarrow> scan cfg d = scan cfg d'"
  using scan_loop_raw[of d d' "[0..<length d]" cfg] map_eq_imp_length_eq[of raw d raw d']
  by (simp add: scan_def)

lemma delta_None_iff: "delta s = None \<longleftrightarrow> raw s = None \<or> accepted s = None"
  by (auto simp: delta_def split: option.splits)

lemma count_rows_trueyes:
  "length pred = length xs \<Longrightarrow>
     count_rows (\<lambda>t p. t \<and> \<not> p) (map g xs) pred + count_rows (\<lambda>t p. t \<and> p) (map g xs) pred
       = length (filter g xs)"
  by (induction pred xs rule: list_induct2) (auto simp: count_rows_def)

lemma count_rows_trueno:
  "length pred = length xs \<Longrightarrow>
     count_rows (\<lambda>t p. \<not> t \<and> \<not> p) (map g xs) pred
       + count_rows (\<lambda>t p. \<not> t \<and> p) (map g xs) pred
       = length (filter (\<lambda>x. \<not> g x) xs)"
  by (induction pred xs rule: list_induct2) (auto simp: count_rows_def)

text \<open>
  C10: a row whose \<open>raw\<close> or \<open>accepted\<close> value is missing has a NaN \<open>delta\<close> and the
  ground-truth label False; in the confusion matrix the true-no row counts exactly the rows
  whose \<open>delta\<close> is NaN or at most the buffer in absolute value, and the true-yes row the
  rows with a \<open>delta\<close> above the buffer.
\<close>

theorem missing_value_true_negative:
  fixes cfg :: config and data :: "sample list" and pred :: "bool list"
  assumes "length pred = length data"
  defines "c \<equiv> confusion_matrix (map (true_is_spike cfg) data) pred"
  shows "(\<forall>s. raw s = None \<or> accepted s = None \<longrightarrow> delta s = None \<and> \<not> true_is_spike cfg s) \<and>
         n_predno_trueno c + n_predyes_trueno c
           = length (filter (\<lambda>s. delta s = None \<or> (\<exists>d. delta s = Some d \<and> \<bar>d\<bar> \<le> buffer cfg)) data) \<and>
         n_predno_trueyes c + n_predyes_trueyes c
           = length (filter (\<lambda>s. \<exists>d. delta s = Some d \<and> \<bar>d\<bar> > buffer cfg) data)"
proof -
  have yes: "filter (true_is_spike cfg) data
      = filter (\<lambda>s. \<exists>d. delta s = Some d \<and> \<bar>d\<bar> > buffer cfg) data"
    by (rule filter_cong) (auto simp: true_is_spike_def split: option.splits)
  have no: "filter (\<lambda>s. \<not> true_is_spike cfg s) data
      = filter (\<lambda>s. delta s = None \<or> (\<exists>d. delta s = Some d \<and> \<bar>d\<bar> \<le> buffer cfg)) data"
    by (rule filter_cong) (auto simp: true_is_spike_def split: option.splits)
  have "n_predno_trueyes c + n_predyes_trueyes c = length (filter (true_is_spike cfg) data)"
    using count_rows_trueyes[OF assms(1), of "true_is_spike cfg"]
    by (simp add: c_def confusion_matrix_def)
  then have c1: "n_predno_trueyes c + n_predyes_trueyes c
      = length (filter (\<lambda>s. \<exists>d. delta s = Some d \<and> \<bar>d\<bar> > buffer cfg) data)"
    by (simp only: yes)
  have "n_predno_trueno c + n_predyes_trueno c
      = length (filter (\<lambda>s. \<not> true_is_spike cfg s) data)"
    using count_rows_trueno[OF assms(1), of "true_is_spike cfg"]
    by (simp add: c_def confusion_matrix_def)
  then have c2: "n_predno_trueno c + n_predyes_trueno c
      = length (filter (\<lambda>s. delta s = None \<or> (\<exists>d. delta s = Some d \<and> \<bar>d\<bar> \<le> buffer cfg)) data)"
    by (simp only: no)
  have c3: "delta s = None \<and> \<not> true_is_spike cfg s"
    if "raw s = None \<or> accepted s = None" for s
    using that by (auto simp: delta_def true_is_spike_def split: option.splits)
  show ?thesis using c1 c2 c3 by blast
qed

lemma slice_nth: "e \<le> length xs \<Longrightarrow> slice b e xs = map ((!) xs) [b..<e]"
proof -
  assume e: "e \<le> length xs"
  show ?thesis
  proof (rule nth_equalityI)
    show "length (slice b e xs) = length (map ((!) xs) [b..<e])" using e by (simp add: slice_def)
  next
    fix i assume "i < length (slice b e xs)"
    then have "i < e - b" using e by (simp add: slice_def)
    then show "slice b e xs ! i = map ((!) xs) [b..<e] ! i"
      using e by (simp add: slice_def)
  qed
qed

lemma window_indices:
  "i \<le> length xs \<Longrightarrow> window cfg xs i = map ((!) xs) [begin_index cfg i..<i - 1]"
proof -
  assume "i \<le> length xs"
  moreover have "end_index i = i - 1" by (simp add: end_index_def)
  ultimately show ?thesis by (simp add: window_def slice_nth)
qed

text \<open>
  C2 on the constants of the file at row 250 of 300 rows: the window holds the rows 10 to
  248. Row 249, the one just before the current row, is not in it.
\<close>

theorem window_misses_previous_row:
  "window default_config (map (\<lambda>k. reading (real k)) [0..<300]) 250
     = map (\<lambda>k. reading (real k)) [10..<249]"
proof -
  have "window default_config (map (\<lambda>k. reading (real k)) [0..<300]) 250
      = map (\<lambda>k. reading (real k)) (window default_config [0..<300] 250)"
    by (simp only: window_map)
  also have "window default_config [0..<300] 250 = map ((!) [0..<300]) [10..<249]"
    using window_indices[of 250 "[0..<300]" default_config]
    by (simp add: begin_index_def default_config_def del: upt_Suc)
  also have "\<dots> = [10..<249]"
    by (rule nth_equalityI) (simp_all del: upt_Suc)
  finally show ?thesis .
qed

section \<open>Concrete runs\<close>

lemma histogram_empty_tiny: "histogram [] 2 = Inr ([0, 0], [0, 1 / 2, 1])"
  by (simp add: histogram_def outer_edges_def linspace_def numeral_2_eq_2)

lemma build_histogram_tiny_empty: "build_histogram tiny_config [] [] = Inr (3 / 20, 17 / 20)"
proof -
  have "icdf_bounds tiny_config [0, 0] [0, 1 / 2, 1] = (1 / 4, 3 / 4)"
    by (simp add: icdf_bounds_def np_cdf_def interp1d_def bincenters_def)
  moreover have "round3 (1 / 4) = 1 / 4" "round3 (3 / 4) = 3 / 4"
    by (simp_all add: round3_def rint_def)
  ultimately show ?thesis
    by (simp add: build_histogram_def finite_unflagged_def histogram_empty_tiny tiny_config_def)
qed

lemma window_tiny_1: "window tiny_config xs (Suc 0) = []"
  by (simp add: window_def slice_def end_index_def)

lemma min_entries_tiny: "min_entries tiny_config = 1"
  by (simp add: tiny_config_def)

lemma scan_tiny: "scan tiny_config [reading 0, reading 5] = Inr [False, True]"
proof -
  have b0: "scan_body tiny_config [reading 0, reading 5] 0 [False, False] = Inr [False, False]"
    by (simp add: scan_body_def min_entries_tiny)
  have b1: "scan_body tiny_config [reading 0, reading 5] (Suc 0) [False, False] = Inr [False, True]"
    by (simp add: scan_body_def window_tiny_1 build_histogram_tiny_empty nValid_def classify_def
        reading_def min_entries_tiny)
  show ?thesis
    by (simp add: scan_def numeral_2_eq_2 b0 b1 upt_rec)
qed

text \<open>C8, on a concrete input.\<close>

theorem warmup_label_False_witness:
  "scan default_config [reading 0] = Inr [False] \<and> (0::nat) < length [reading 0] \<and>
   int 0 < min_entries default_config \<and> [False] ! 0 = False"
proof -
  have m: "int 0 < min_entries default_config" by (simp add: default_config_def)
  show ?thesis
    using warmup_label_False[OF scan_single_default _ m, of 0] scan_single_default[of 0] m
    by simp
qed


text \<open>C6, on a concrete input.\<close>

theorem confusion_total_all_rows_witness:
  "scan tiny_config [reading 0, reading 5] = Inr [False, True] \<and>
   total (confusion_matrix (map (true_is_spike tiny_config) [reading 0, reading 5]) [False, True]) = 2"
  using confusion_total_all_rows[OF scan_tiny] scan_tiny by simp

text \<open>C10, on a concrete input.\<close>

theorem missing_value_true_negative_witness:
  "length [True] = length [\<lparr>Time = 0, raw = None, accepted = Some 2\<rparr>] \<and>
   delta \<lparr>Time = 0, raw = None, accepted = Some 2\<rparr> = None \<and>
   \<not> true_is_spike default_config \<lparr>Time = 0, raw = None, accepted = Some 2\<rparr> \<and>
   n_predno_trueno (confusion_matrix (map (true_is_spike default_config)
       [\<lparr>Time = 0, raw = None, accepted = Some 2\<rparr>]) [True])
     + n_predyes_trueno (confusion_matrix (map (true_is_spike default_config)
       [\<lparr>Time = 0, raw = None, accepted = Some 2\<rparr>]) [True]) = 1"
proof -
  let ?s = "\<lparr>Time = 0, raw = None, accepted = Some 2\<rparr>"
  have l: "length [True] = length [?s]" by simp
  note t = missing_value_true_negative[OF l, of default_config]
  have r: "raw ?s = None \<or> accepted ?s = None" by simp
  have d: "delta ?s = None \<and> \<not> true_is_spike default_config ?s"
    using t r by blast
  have one: "length (filter (\<lambda>s. delta s = None
      \<or> (\<exists>d. delta s = Some d \<and> \<bar>d\<bar> \<le> buffer default_config)) [?s]) = 1"
    using d by simp
  have n: "n_predno_trueno (confusion_matrix (map (true_is_spike default_config) [?s]) [True])
     + n_predyes_trueno (confusion_matrix (map (true_is_spike default_config) [?s]) [True]) = 1"
    by (rule trans[OF t[THEN conjunct2, THEN conjunct1] one])
  show ?thesis using l d n by blast
qed

section \<open>The measurements may raise\<close>

lemma sorted_cumsum_from:
  "\<forall>x\<in>set xs. 0 \<le> x \<Longrightarrow> sorted (cumsum_from acc xs) \<and> (\<forall>y\<in>set (cumsum_from acc xs). acc \<le> y)"
proof (induction xs arbitrary: acc)
  case Nil
  then show ?case by simp
next
  case (Cons x xs)
  then have "sorted (cumsum_from (acc + x) xs)"
    and "\<forall>y\<in>set (cumsum_from (acc + x) xs). acc + x \<le> y"
    and "0 \<le> x"
    by simp_all
  then show ?case by fastforce
qed

lemma sorted_np_cdf: "np_cdf hist = Some cdf \<Longrightarrow> sorted cdf"
  using sorted_cumsum_from[of "map (\<lambda>h. real h / real (sum_list hist)) hist" 0]
  by (auto simp: np_cdf_def split: if_splits)

lemma finite_unflagged_total:
  "length previous_spikes = length subdata \<Longrightarrow>
     \<exists>m. finite_unflagged subdata previous_spikes = Inr m"
  by (simp add: finite_unflagged_def Let_def)

lemma build_histogram_total:
  assumes "0 < nbins cfg" and "length previous_spikes = length subdata"
  shows "\<exists>r. build_histogram cfg subdata previous_spikes = Inr r"
proof -
  obtain m where m: "finite_unflagged subdata previous_spikes = Inr m"
    using finite_unflagged_total[OF assms(2)] by blast
  obtain hist where "histogram (select_values (map raw subdata) m) (nbins cfg)
      = Inr (hist, linspace (fst (outer_edges (select_values (map raw subdata) m)))
                            (snd (outer_edges (select_values (map raw subdata) m))) (nbins cfg))"
    using histogram_Inr[OF assms(1)] by blast
  then show ?thesis by (simp add: build_histogram_def m split_beta)
qed

lemma compute_metrics_cases:
  "compute_metrics c =
     (if n_predyes_trueyes c + n_predyes_trueno c \<noteq> 0
         \<and> n_predno_trueyes c + n_predyes_trueyes c \<noteq> 0
         \<and> n_predno_trueno c + n_predyes_trueno c \<noteq> 0
      then Inr \<lparr>accuracy = real (n_predno_trueno c + n_predyes_trueyes c) / real (total c),
                precision = real (n_predyes_trueyes c)
                  / real (n_predyes_trueyes c + n_predyes_trueno c),
                sensitivity = real (n_predyes_trueyes c)
                  / real (n_predno_trueyes c + n_predyes_trueyes c),
                error_rate = real (n_predyes_trueno c + n_predno_trueyes c) / real (total c),
                true_negative_rate = real (n_predno_trueno c)
                  / real (n_predno_trueno c + n_predyes_trueno c),
                false_positive_rate = real (n_predyes_trueno c)
                  / real (n_predno_trueno c + n_predyes_trueno c),
                prevalence = real (n_predno_trueyes c + n_predyes_trueyes c) / real (total c)\<rparr>
      else Inl ZeroDivisionError)"
  by (auto simp: compute_metrics_def bind_def py_div_def total_def Let_def)

text \<open>
  C7, as the code has it: once the scan has returned its label array, the measurements
  are computed, with the values of the seven formulas, when the three denominators
  \<open>total_predyes\<close>, \<open>total_trueyes\<close> and \<open>total_trueno\<close> are all non-zero; when one of them is
  zero a division raises \<open>ZeroDivisionError\<close> and there is no result.
\<close>

theorem metrics_raise_on_zero_denominator:
  assumes "scan cfg data = Inr ls"
  shows "let c = confusion_matrix (map (true_is_spike cfg) data) ls;
             tn = n_predno_trueno c; fp = n_predyes_trueno c;
             fn = n_predno_trueyes c; tp = n_predyes_trueyes c
         in evaluate cfg data =
              (if tp + fp \<noteq> 0 \<and> fn + tp \<noteq> 0 \<and> tn + fp \<noteq> 0
               then Inr (ls, c,
                 \<lparr>accuracy = real (tn + tp) / real (tn + fn + fp + tp),
                  precision = real tp / real (tp + fp),
                  sensitivity = real tp / real (fn + tp),
                  error_rate = real (fp + fn) / real (tn + fn + fp + tp),
                  true_negative_rate = real tn / real (tn + fp),
                  false_positive_rate = real fp / real (tn + fp),
                  prevalence = real (fn + tp) / real (tn + fn + fp + tp)\<rparr>)
               else Inl ZeroDivisionError)"
proof -
  define c where "c = confusion_matrix (map (true_is_spike cfg) data) ls"
  have e: "evaluate cfg data = bind (compute_metrics c) (\<lambda>m. Inr (ls, c, m))"
    by (simp add: evaluate_def assms bind_def c_def Let_def)
  show ?thesis
    unfolding Let_def c_def[symmetric] e compute_metrics_cases[of c]
    by (simp add: bind_def total_def)
qed

lemma evaluate_single_default: "evaluate default_config [reading 0] = Inl ZeroDivisionError"
proof -
  have t: "map (true_is_spike default_config) [reading 0] = [False]"
    by (simp add: true_is_spike_def delta_def reading_def default_config_def)
  have "compute_metrics (confusion_matrix [False] [False]) = Inl ZeroDivisionError"
    by (simp add: compute_metrics_def bind_def py_div_def total_def confusion_matrix_def
        count_rows_def)
  then show ?thesis
    unfolding evaluate_def scan_single_default t by (simp add: bind_def)
qed

text \<open>
  C7 as stated fails on a single row: nothing is predicted and nothing is a true spike,
  and the division for \<open>precision\<close> raises.
\<close>

theorem metrics_raise_counterexample:
  "evaluate default_config [reading 0] = Inl ZeroDivisionError"
  by (rule evaluate_single_default)

lemma short_config_fields:
  "min_entries short_config = 2" "interval short_config = 3" "nbins short_config = 2"
  "buffer short_config = 1 / 10" "cdf_limits short_config = (1 / 4, 3 / 4)"
  by (simp_all add: short_config_def)

lemma window_short_2: "window short_config [a, b, c] 2 = [a]"
  by (simp add: window_def slice_def begin_index_def end_index_def short_config_fields)

lemma histogram_one_zero: "histogram [0] 2 = Inr ([0, 1], [- (1 / 2), 0, 1 / 2])"
  by (simp add: histogram_def outer_edges_def bin_index_def linspace_def numeral_2_eq_2)

lemma build_histogram_short:
  "build_histogram short_config [reading 0] [False] = Inr (- (9 / 40), 9 / 40)"
proof -
  have c: "np_cdf [0, 1] = Some [0, 1]" by (simp add: np_cdf_def)
  have b: "bincenters [- (1 / 2), 0, 1 / 2] = [- (1 / 4), 1 / 4]"
    by (simp add: bincenters_def)
  have lo: "interp1d (Some [0, 1]) [- (1 / 4), 1 / 4] (1 / 4) = Some (- (1 / 8))"
    by (simp add: interp1d_def np_interp_def)
  have hi: "interp1d (Some [0, 1]) [- (1 / 4), 1 / 4] (3 / 4) = Some (1 / 8)"
    by (simp add: interp1d_def np_interp_def)
  have i: "icdf_bounds short_config [0, 1] [- (1 / 2), 0, 1 / 2] = (- (1 / 8), 1 / 8)"
    unfolding icdf_bounds_def Let_def c b short_config_fields fst_conv snd_conv lo hi by simp
  have r: "round3 (- (1 / 8)) = - (1 / 8)" "round3 (1 / 8) = 1 / 8"
    by (simp_all add: round3_def rint_def)
  have f: "finite_unflagged [reading 0] [False] = Inr [True]"
    by (simp add: finite_unflagged_def reading_def)
  have s: "select_values (map raw [reading 0]) [True] = [0]"
    by (simp add: reading_def)
  show ?thesis
    unfolding build_histogram_def f sum.case s short_config_fields histogram_one_zero prod.case i
    by (simp add: r)
qed

lemma scan_short: "scan short_config short_rows = Inr [False, False, True]"
proof -
  have b0: "scan_body short_config short_rows 0 st = Inr st" for st
    by (rule scan_body_warmup) (simp add: short_config_fields)
  have b1: "scan_body short_config short_rows (Suc 0) st = Inr st" for st
    by (rule scan_body_warmup) (simp add: short_config_fields)
  have w: "window short_config short_rows 2 = [reading 0]"
    "window short_config [False, False, False] 2 = [False]"
    unfolding short_rows_def by (rule window_short_2)+
  have n: "nValid [reading 0] = 1" by (simp add: nValid_def reading_def)
  have r: "raw (short_rows ! 2) = Some 5" by (simp add: short_rows_def)
  have b2: "scan_body short_config short_rows 2 [False, False, False]
      = Inr [False, False, True]"
    unfolding scan_body_def Let_def w n build_histogram_short short_config_fields r
    by (simp add: classify_def)
  have u: "[0..<length short_rows] = [0, Suc 0, 2]"
    by (simp add: short_rows_def upt_rec)
  have i: "replicate (length short_rows) False = [False, False, False]"
    by (simp add: short_rows_def)
  show ?thesis unfolding scan_def u i by (simp add: b0 b1 b2)
qed

text \<open>
  C7, on a concrete input: row 2 is evaluated against the histogram of row 0 and
  labelled a spike, which it is; the three denominators are 1, 1 and 2, and the
  measurements are computed.
\<close>

theorem metrics_raise_on_zero_denominator_witness:
  "scan short_config short_rows = Inr [False, False, True] \<and>
   evaluate short_config short_rows
     = Inr ([False, False, True],
            \<lparr>n_predno_trueno = 2, n_predyes_trueno = 0, n_predno_trueyes = 0,
             n_predyes_trueyes = 1\<rparr>,
            \<lparr>accuracy = 1, precision = 1, sensitivity = 1, error_rate = 0,
             true_negative_rate = 1, false_positive_rate = 0, prevalence = 1 / 3\<rparr>)"
proof -
  have t: "map (true_is_spike short_config) short_rows = [False, False, True]"
    by (simp add: short_rows_def true_is_spike_def delta_def reading_def short_config_fields)
  have c: "confusion_matrix [False, False, True] [False, False, True]
      = \<lparr>n_predno_trueno = 2, n_predyes_trueno = 0, n_predno_trueyes = 0,
         n_predyes_trueyes = 1\<rparr>"
    by (simp add: confusion_matrix_def count_rows_def)
  show ?thesis
    using metrics_raise_on_zero_denominator[OF scan_short] scan_short
    unfolding t c Let_def by simp
qed

section \<open>The bounds are interpolated\<close>

lemma np_interp_interpolates:
  assumes "xs \<noteq> []" and "hd xs \<le> p"
  shows "interpolates xs ys p (np_interp xs ys p)"
proof -
  define j where "j = length (takeWhile (\<lambda>v. v \<le> p) xs) - 1"
  note f = takeWhile_le_facts[OF assms]
  have jn: "j < length xs" using f(1,2) unfolding j_def by arith
  have le: "xs ! j \<le> p" using f(3) unfolding j_def .
  have gt: "p < xs ! Suc j" if "Suc j < length xs"
  proof -
    have "length (takeWhile (\<lambda>v. v \<le> p) xs) = Suc j" using f(1) unfolding j_def by arith
    then show ?thesis using f(4) that by simp
  qed
  have e: "(j = length xs - 1) = (Suc j = length xs)" using jn by arith
  have v: "if Suc j = length xs \<or> xs ! j = p then np_interp xs ys p = ys ! j
           else np_interp xs ys p = (ys ! Suc j - ys ! j) / (xs ! Suc j - xs ! j) * (p - xs ! j) + ys ! j"
    using np_interp_unfold[OF j_def, of ys] e by auto
  show ?thesis unfolding interpolates_def using jn le gt v by blast
qed

text \<open>
  C1, as the code has it: the two bounds are read off the linear interpolant of the bin
  centres over the cumulative probabilities. A target outside the range of the cumulative
  probabilities, or an empty histogram (a NaN distribution), gives the smallest bin centre
  for the lower bound and the largest for the upper bound.
\<close>

theorem icdf_bounds_interpolate:
  assumes "histogram a n = Inr (hist, edges)"
  shows "case np_cdf hist of
           None \<Rightarrow> icdf_bounds cfg hist edges
                    = (Min (set (bincenters edges)), Max (set (bincenters edges)))
         | Some cdf \<Rightarrow>
             (let p = fst (cdf_limits cfg); lower = fst (icdf_bounds cfg hist edges)
              in if p < hd cdf \<or> last cdf < p then lower = Min (set (bincenters edges))
                 else interpolates cdf (bincenters edges) p lower) \<and>
             (let q = snd (cdf_limits cfg); upper = snd (icdf_bounds cfg hist edges)
              in if q < hd cdf \<or> last cdf < q then upper = Max (set (bincenters edges))
                 else interpolates cdf (bincenters edges) q upper)"
proof (cases "np_cdf hist")
  case None
  then show ?thesis by (simp add: icdf_bounds_def interp1d_def Let_def)
next
  case (Some cdf)
  note hc = histogram_cases[OF assms]
  have "length cdf = n" using np_cdf_Some[OF Some] hc(2) by simp
  then have ne: "cdf \<noteq> []" using hc(1) by auto
  have i: "interpolates cdf (bincenters edges) x (np_interp cdf (bincenters edges) x)"
    if "\<not> (x < hd cdf \<or> last cdf < x)" for x
    using np_interp_interpolates[OF ne, of x] that by simp
  show ?thesis
    using i[of "fst (cdf_limits cfg)"] i[of "snd (cdf_limits cfg)"]
    by (simp add: Some icdf_bounds_def interp1d_def Let_def)
qed

lemma Min_sorted: "sorted xs \<Longrightarrow> xs \<noteq> [] \<Longrightarrow> Min (set xs) = hd xs"
proof -
  assume s: "sorted xs" and n: "xs \<noteq> []"
  obtain x ys where xs: "xs = x # ys" using n by (cases xs) auto
  have "\<And>y. y \<in> set xs \<Longrightarrow> x \<le> y" using s unfolding xs by auto
  moreover have "x \<in> set xs" unfolding xs by simp
  ultimately have "Min (set xs) = x" by (intro Min_eqI) auto
  then show ?thesis unfolding xs by simp
qed

lemma Max_sorted: "sorted xs \<Longrightarrow> xs \<noteq> [] \<Longrightarrow> Max (set xs) = last xs"
proof -
  assume s: "sorted xs" and n: "xs \<noteq> []"
  have le: "x \<le> last xs" if mem: "x \<in> set xs" for x
  proof -
    obtain i where i: "i < length xs" "xs ! i = x"
      using mem unfolding in_set_conv_nth by blast
    have "i \<le> length xs - 1" using i(1) by arith
    moreover have "length xs - 1 < length xs" using i(1) by arith
    ultimately have "xs ! i \<le> xs ! (length xs - 1)" by (rule sorted_nth_mono[OF s])
    then have "xs ! i \<le> last xs" unfolding last_conv_nth[OF n] .
    then show ?thesis using i(2) by simp
  qed
  have m: "last xs \<in> set xs" using n by (rule last_in_set)
  show ?thesis by (rule Max_eqI[OF finite_set le m])
qed

lemma bincenters_Min_Max:
  assumes "lo \<le> hi" and "0 < n"
  shows "Min (set (bincenters (linspace lo hi n))) = lo + (hi - lo) / (2 * real n)"
    and "Max (set (bincenters (linspace lo hi n))) = hi - (hi - lo) / (2 * real n)"
proof -
  let ?bc = "bincenters (linspace lo hi n)"
  define d where "d = (hi - lo) / real n"
  have bc: "?bc = map (\<lambda>k. lo + (real k + 1 / 2) * d) [0..<n]"
    unfolding d_def by (rule bincenters_linspace)
  have ne: "?bc \<noteq> []" using assms(2) length_bincenters[of lo hi n] by auto
  have s: "sorted ?bc" by (rule sorted_bincenters[OF assms(1)])
  have nd: "real n * d = hi - lo" using assms(2) by (simp add: d_def)
  have d2: "(hi - lo) / (2 * real n) = d / 2" by (simp add: d_def)
  have "hd ?bc = lo + (real 0 + 1 / 2) * d"
    unfolding bc using assms(2) by (simp add: hd_map)
  then have "hd ?bc = lo + d / 2" by simp
  then show "Min (set ?bc) = lo + (hi - lo) / (2 * real n)"
    using Min_sorted[OF s ne] d2 by simp
  have "last ?bc = lo + (real (n - 1) + 1 / 2) * d"
    unfolding bc using assms(2) by (simp add: last_map)
  also have "real (n - 1) = real n - 1" using assms(2) by (simp add: of_nat_diff)
  also have "lo + (real n - 1 + 1 / 2) * d = lo + real n * d - d / 2" by (simp add: algebra_simps)
  also have "\<dots> = hi - d / 2" by (simp add: nd)
  finally show "Max (set ?bc) = hi - (hi - lo) / (2 * real n)"
    using Max_sorted[OF s ne] d2 by simp
qed

lemma cumsum_from_replicate_0:
  "cumsum_from acc (replicate n 0 @ xs) = replicate n acc @ cumsum_from acc xs"
  by (induction n) auto

lemma histogram_spiky: "histogram spiky_values 80 = Inr (spiky_hist, linspace 0 8000 80)"
proof -
  have s: "set spiky_values = {0, 8000}" by (auto simp: spiky_values_def)
  have o: "outer_edges spiky_values = (0, 8000)"
    unfolding outer_edges_def s by (simp add: spiky_values_def)
  have i: "map (bin_index 0 8000 80) spiky_values = replicate 98 0 @ [79]"
    by (simp add: spiky_values_def bin_index_def)
  have h: "map (\<lambda>k. length (filter (\<lambda>j. j = k) (replicate 98 0 @ [79::nat]))) [0..<80] = spiky_hist"
  proof (rule nth_equalityI)
    show "length (map (\<lambda>k. length (filter (\<lambda>j. j = k) (replicate 98 0 @ [79::nat]))) [0..<80])
        = length spiky_hist"
      by (simp add: spiky_hist_def)
  next
    fix k assume "k < length (map (\<lambda>k. length (filter (\<lambda>j. j = k) (replicate 98 0 @ [79::nat]))) [0..<80])"
    then have k: "k < 80" by simp
    consider "k = 0" | "0 < k" "k < 79" | "k = 79" using k by arith
    then show "map (\<lambda>k. length (filter (\<lambda>j. j = k) (replicate 98 0 @ [79::nat]))) [0..<80] ! k
        = spiky_hist ! k"
    proof cases
      case 1
      then show ?thesis by (simp add: spiky_hist_def del: upt_Suc)
    next
      case 2
      then show ?thesis using k by (simp add: spiky_hist_def nth_Cons' nth_append del: upt_Suc)
    next
      case 3
      then show ?thesis by (simp add: spiky_hist_def nth_Cons' nth_append del: upt_Suc)
    qed
  qed
  show ?thesis unfolding histogram_def o Let_def prod.case i h by simp
qed

lemma np_cdf_spiky: "np_cdf spiky_hist = Some (replicate 79 (98 / 99) @ [1])"
proof -
  have s: "sum_list spiky_hist = 99" by (simp add: spiky_hist_def sum_list_replicate)
  have "cumsum_from 0 (map (\<lambda>h. real h / 99) spiky_hist)
      = (98 / 99) # cumsum_from (98 / 99) (replicate 78 0 @ [1 / 99])"
    by (simp add: spiky_hist_def)
  also have "\<dots> = (98 / 99) # replicate 78 (98 / 99) @ [1]"
    by (simp only: cumsum_from_replicate_0) simp
  also have "\<dots> = replicate (Suc 78) (98 / 99) @ [1]"
    by (simp only: replicate_Suc append_Cons)
  finally have c: "cumsum_from 0 (map (\<lambda>h. real h / 99) spiky_hist)
      = replicate 79 (98 / 99) @ [1]"
    by simp
  show ?thesis unfolding np_cdf_def s using c by simp
qed

lemma bincenters_spiky:
  "bincenters (linspace 0 8000 80) = map (\<lambda>k. (real k + 1 / 2) * 100) [0..<80]"
  by (simp add: bincenters_linspace del: upt_Suc)

lemma bincenters_spiky_nth:
  "k < 80 \<Longrightarrow> bincenters (linspace 0 8000 80) ! k = (real k + 1 / 2) * 100"
  by (simp add: bincenters_spiky del: upt_Suc)

lemma icdf_bounds_spiky:
  "icdf_bounds default_config spiky_hist (linspace 0 8000 80) = (50, 7947723 / 1000)"
proof -
  let ?cdf = "replicate 79 (98 / 99 :: real) @ [1]"
  let ?bc = "bincenters (linspace 0 8000 80)"
  have mm: "Min (set ?bc) = 50" "Max (set ?bc) = 7950"
    using bincenters_Min_Max[of 0 8000 80] by simp_all
  have hl: "hd ?cdf = 98 / 99" "last ?cdf = 1" by simp_all
  have lo: "interp1d (Some ?cdf) ?bc (23 / 100000) = None"
    unfolding interp1d_def option.case hl by simp
  have tw: "takeWhile (\<lambda>v. v \<le> 99977 / 100000) ?cdf = replicate 79 (98 / 99)"
    by (simp add: takeWhile_append)
  have j: "length (takeWhile (\<lambda>v. v \<le> 99977 / 100000) ?cdf) - 1 = 78"
    unfolding tw by simp
  have x: "?cdf ! 78 = 98 / 99" "?cdf ! Suc 78 = 1"
    by (simp_all add: nth_append)
  have y: "?bc ! 78 = 7850" "?bc ! Suc 78 = 7950"
    by (simp_all add: bincenters_spiky_nth)
  have "np_interp ?cdf ?bc (99977 / 100000) = 7947723 / 1000"
    unfolding np_interp_def j Let_def x y by simp
  then have hi: "interp1d (Some ?cdf) ?bc (99977 / 100000) = Some (7947723 / 1000)"
    unfolding interp1d_def option.case hl by simp
  have c: "cdf_limits default_config = (23 / 100000, 99977 / 100000)"
    by (simp add: default_config_def)
  show ?thesis
    unfolding icdf_bounds_def Let_def np_cdf_spiky c fst_conv snd_conv lo hi mm by simp
qed

lemma quantile_bounds_spiky:
  "quantile_bounds default_config spiky_hist (linspace 0 8000 80) = (50, 7950)"
proof -
  let ?cdf = "replicate 79 (98 / 99 :: real) @ [1]"
  let ?bc = "bincenters (linspace 0 8000 80)"
  have mm: "Min (set ?bc) = 50"
    using bincenters_Min_Max[of 0 8000 80] by simp
  have len: "length ?bc = 80" by (rule length_bincenters)
  then have ne: "?bc \<noteq> []" by auto
  have all: "filter (\<lambda>(c, b). 23 / 100000 \<le> c) (zip ?cdf ?bc) = zip ?cdf ?bc"
    unfolding filter_id_conv by (auto dest!: set_zip_leftD)
  have lo: "empirical_quantile (Some ?cdf) ?bc (23 / 100000) = Some 50"
    unfolding empirical_quantile_def option.case Let_def all
    using len mm ne by (simp add: map_snd_zip_take)
  have bc: "?bc = take 79 ?bc @ [7950]"
  proof -
    have "?bc = take 79 ?bc @ drop 79 ?bc" by simp
    moreover have "drop 79 ?bc = [?bc ! 79]"
      using len by (intro nth_equalityI) simp_all
    ultimately show ?thesis by (simp add: bincenters_spiky_nth)
  qed
  have z: "zip ?cdf ?bc = zip (replicate 79 (98 / 99)) (take 79 ?bc) @ [(1, 7950)]"
    by (subst bc) (simp add: len)
  have none: "filter (\<lambda>(c, b). 99977 / 100000 \<le> c) (zip (replicate 79 (98 / 99 :: real)) (take 79 ?bc)) = []"
    unfolding filter_empty_conv by (auto dest!: set_zip_leftD)
  have "filter (\<lambda>(c, b). 99977 / 100000 \<le> c) (zip ?cdf ?bc) = [(1, 7950)]"
    unfolding z filter_append none by simp
  then have hi: "empirical_quantile (Some ?cdf) ?bc (99977 / 100000) = Some 7950"
    unfolding empirical_quantile_def option.case Let_def by simp
  have c: "cdf_limits default_config = (23 / 100000, 99977 / 100000)"
    by (simp add: default_config_def)
  show ?thesis
    unfolding quantile_bounds_def Let_def np_cdf_spiky c fst_conv snd_conv lo hi by simp
qed

lemma finite_unflagged_readings:
  "finite_unflagged (map reading vs) (replicate (length vs) False)
     = Inr (replicate (length vs) True)"
proof -
  have "map2 (\<lambda>f p. f \<and> \<not> p) (map (\<lambda>s. raw s \<noteq> None) (map reading vs))
          (replicate (length vs) False) = replicate (length vs) True"
    by (induction vs) (simp_all add: reading_def)
  then show ?thesis by (simp add: finite_unflagged_def Let_def)
qed

lemma select_values_readings:
  "select_values (map raw (map reading vs)) (replicate (length vs) True) = vs"
  by (induction vs) (simp_all add: reading_def)

lemma build_histogram_spiky:
  "build_histogram default_config (map reading spiky_values) (replicate 99 False)
     = Inr (997 / 20, 7947873 / 1000)"
proof -
  have l: "length spiky_values = 99" by (simp add: spiky_values_def)
  have f: "finite_unflagged (map reading spiky_values) (replicate 99 False)
      = Inr (replicate 99 True)"
    using finite_unflagged_readings[of spiky_values] unfolding l .
  have s: "select_values (map raw (map reading spiky_values)) (replicate 99 True) = spiky_values"
    using select_values_readings[of spiky_values] unfolding l .
  have n: "nbins default_config = 80" "buffer default_config = 15 / 100"
    by (simp_all add: default_config_def)
  have r: "round3 50 = 50" "round3 (7947723 / 1000) = 7947723 / 1000"
    by (simp_all add: round3_def rint_def)
  show ?thesis
    unfolding build_histogram_def f sum.case s n histogram_spiky prod.case icdf_bounds_spiky Let_def r
    by simp
qed

text \<open>
  C1 as stated fails on a window of 98 readings at level 0 and one at level 8000, none of
  them flagged: the upper bound that the code computes is 7947.723 (7947.873 with the
  buffer), between the two last bin centres, where the smallest bin centre with a cumulative
  probability of at least 0.99977 is 7950.
\<close>

theorem quantile_counterexample:
  "build_histogram default_config (map reading spiky_values) (replicate 99 False)
     = Inr (997 / 20, 7947873 / 1000) \<and>
   histogram spiky_values 80 = Inr (spiky_hist, linspace 0 8000 80) \<and>
   icdf_bounds default_config spiky_hist (linspace 0 8000 80) = (50, 7947723 / 1000) \<and>
   quantile_bounds default_config spiky_hist (linspace 0 8000 80) = (50, 7950)"
  using build_histogram_spiky histogram_spiky icdf_bounds_spiky quantile_bounds_spiky by blast

text \<open>C1 as amended, on the same window.\<close>

theorem icdf_bounds_interpolate_witness:
  "histogram spiky_values 80 = Inr (spiky_hist, linspace 0 8000 80) \<and>
   fst (icdf_bounds default_config spiky_hist (linspace 0 8000 80))
     = Min (set (bincenters (linspace 0 8000 80))) \<and>
   interpolates (replicate 79 (98 / 99) @ [1]) (bincenters (linspace 0 8000 80))
     (99977 / 100000) (snd (icdf_bounds default_config spiky_hist (linspace 0 8000 80)))"
proof -
  have c: "cdf_limits default_config = (23 / 100000, 99977 / 100000)"
    by (simp add: default_config_def)
  have hl: "hd (replicate 79 (98 / 99 :: real) @ [1]) = 98 / 99"
    "last (replicate 79 (98 / 99 :: real) @ [1]) = 1" by simp_all
  note t = icdf_bounds_interpolate[OF histogram_spiky, of default_config,
      unfolded np_cdf_spiky option.case Let_def c fst_conv snd_conv hl]
  have "fst (icdf_bounds default_config spiky_hist (linspace 0 8000 80))
      = Min (set (bincenters (linspace 0 8000 80)))"
    using t by simp
  moreover have "interpolates (replicate 79 (98 / 99) @ [1]) (bincenters (linspace 0 8000 80))
     (99977 / 100000) (snd (icdf_bounds default_config spiky_hist (linspace 0 8000 80)))"
    using t by simp
  ultimately show ?thesis using histogram_spiky by blast
qed

text \<open>
  C5, on the same window with the constants of the file: the lower bound is the smallest
  bin centre, the upper bound is interpolated.
\<close>

theorem interval_ordered_witness:
  "build_histogram default_config (map reading spiky_values) (replicate 99 False)
     = Inr (997 / 20, 7947873 / 1000) \<and>
   cdf_limits default_config = (23 / 100000, 99977 / 100000) \<and>
   0 \<le> buffer default_config \<and> (997 / 20 :: real) \<le> 7947873 / 1000"
proof -
  have c: "cdf_limits default_config = (23 / 100000, 99977 / 100000)"
    and b: "0 \<le> buffer default_config"
    by (simp_all add: default_config_def)
  show ?thesis
    using interval_ordered[OF build_histogram_spiky c b] build_histogram_spiky c b
    by blast
qed

section \<open>A level shift that empties the window\<close>

lemma select_values_mem:
  "v \<in> set (select_values rs ms) \<Longrightarrow>
     \<exists>k. k < length rs \<and> k < length ms \<and> rs ! k = Some v \<and> ms ! k"
proof (induction rs arbitrary: ms)
  case Nil
  then show ?case by simp
next
  case (Cons r rs)
  show ?case
  proof (cases ms)
    case Nil
    then show ?thesis using Cons.prems by simp
  next
    case ms: (Cons m ms')
    have "(r = Some v \<and> m) \<or> v \<in> set (select_values rs ms')"
      using Cons.prems unfolding ms by (cases r; cases m) auto
    then show ?thesis
    proof
      assume "r = Some v \<and> m"
      then have "0 < length (r # rs) \<and> 0 < length ms \<and> (r # rs) ! 0 = Some v \<and> ms ! 0"
        unfolding ms by simp
      then show ?thesis by blast
    next
      assume "v \<in> set (select_values rs ms')"
      then obtain k where "k < length rs" "k < length ms'" "rs ! k = Some v" "ms' ! k"
        using Cons.IH by blast
      then have "Suc k < length (r # rs) \<and> Suc k < length ms
          \<and> (r # rs) ! Suc k = Some v \<and> ms ! Suc k"
        unfolding ms by simp
      then show ?thesis by blast
    qed
  qed
qed

lemma finite_unflagged_nth:
  assumes "finite_unflagged subdata previous_spikes = Inr ms"
    and "length previous_spikes = length subdata" and "k < length subdata"
  shows "ms ! k = (raw (subdata ! k) \<noteq> None \<and> \<not> previous_spikes ! k)"
  using assms by (auto simp: finite_unflagged_def Let_def split: if_splits)

lemma length_finite_unflagged:
  assumes "finite_unflagged subdata previous_spikes = Inr ms"
    and "length previous_spikes = length subdata"
  shows "length ms = length subdata"
  using assms by (auto simp: finite_unflagged_def Let_def split: if_splits)

lemma build_histogram_within:
  assumes "build_histogram cfg subdata previous_spikes = Inr (lower, upper)"
    and "finite_unflagged subdata previous_spikes = Inr ms"
    and "fst (cdf_limits cfg) \<le> snd (cdf_limits cfg)"
  defines "vals \<equiv> select_values (map raw subdata) ms"
  shows "round3 (fst (outer_edges vals)) - buffer cfg \<le> lower"
    and "upper \<le> round3 (snd (outer_edges vals)) + buffer cfg"
proof -
  obtain isfinite hist edges where
    f: "finite_unflagged subdata previous_spikes = Inr isfinite"
    and h: "histogram (select_values (map raw subdata) isfinite) (nbins cfg) = Inr (hist, edges)"
    and l: "lower = round3 (fst (icdf_bounds cfg hist edges)) - buffer cfg"
    and u: "upper = round3 (snd (icdf_bounds cfg hist edges)) + buffer cfg"
    using assms(1) by (rule build_histogram_Inr)
  have "isfinite = ms" using f assms(2) by simp
  then have h': "histogram vals (nbins cfg) = Inr (hist, edges)" using h by (simp add: vals_def)
  note hc = histogram_cases[OF h']
  define lo where "lo = fst (outer_edges vals)"
  define hi where "hi = snd (outer_edges vals)"
  have lh: "lo \<le> hi" unfolding lo_def hi_def by (rule less_imp_le[OF outer_edges_less])
  have e: "edges = linspace lo hi (nbins cfg)" unfolding lo_def hi_def by (rule hc(3))
  note o = icdf_bounds_ordered[OF hc(1,2) lh assms(3), folded e]
  have ne: "bincenters edges \<noteq> []"
    using hc(1) length_bincenters[of lo hi "nbins cfg"] unfolding e by auto
  have "Min (set (bincenters edges)) \<in> set (bincenters edges)"
    and "Max (set (bincenters edges)) \<in> set (bincenters edges)"
    using ne by simp_all
  then have "lo \<le> Min (set (bincenters edges))" and "Max (set (bincenters edges)) \<le> hi"
    using bincenters_within[OF lh, of _ "nbins cfg"] unfolding e by blast+
  then have "lo \<le> fst (icdf_bounds cfg hist edges)" and "snd (icdf_bounds cfg hist edges) \<le> hi"
    using o by linarith+
  then have "round3 lo \<le> round3 (fst (icdf_bounds cfg hist edges))"
    and "round3 (snd (icdf_bounds cfg hist edges)) \<le> round3 hi"
    by (simp_all add: round3_mono)
  then show "round3 (fst (outer_edges vals)) - buffer cfg \<le> lower"
    and "upper \<le> round3 (snd (outer_edges vals)) + buffer cfg"
    unfolding l u lo_def hi_def by simp_all
qed

lemma outer_edges_zeros: "set a \<subseteq> {0} \<Longrightarrow> snd (outer_edges a) \<le> 1"
proof (cases "a = []")
  case True
  then show ?thesis by (simp add: outer_edges_def)
next
  case False
  assume "set a \<subseteq> {0}"
  with False have "set a = {0}" by (cases a) auto
  then show ?thesis using False by (simp add: outer_edges_def)
qed

lemma window_nth:
  assumes "i \<le> length xs" and "k < length (window cfg xs i)"
  shows "window cfg xs i ! k = xs ! (begin_index cfg i + k)" and "begin_index cfg i + k < i - 1"
proof -
  have w: "window cfg xs i = map ((!) xs) [begin_index cfg i..<i - 1]"
    by (rule window_indices[OF assms(1)])
  have k: "k < i - 1 - begin_index cfg i" using assms(2) unfolding w by simp
  then show "begin_index cfg i + k < i - 1" by arith
  show "window cfg xs i ! k = xs ! (begin_index cfg i + k)"
    unfolding w using k by (simp del: upt_Suc)
qed

lemma length_level_shift_rows: "length level_shift_rows = 341"
  by (simp add: level_shift_rows_def)

lemma level_shift_rows_nth:
  "j < 341 \<Longrightarrow> level_shift_rows ! j = (if j < 100 then reading 0 else reading 1000)"
  by (simp add: level_shift_rows_def nth_append)

lemma default_config_fields:
  "min_entries default_config = 100" "interval default_config = 240"
  "nbins default_config = 80" "buffer default_config = 3 / 20"
  "cdf_limits default_config = (23 / 100000, 99977 / 100000)"
  by (simp_all add: default_config_def)

lemma length_window_default:
  assumes "100 \<le> i" and "i \<le> length xs"
  shows "99 \<le> length (window default_config xs i)"
proof -
  have "length (window default_config xs i) = i - 1 - begin_index default_config i"
    unfolding window_indices[OF assms(2)] by simp
  moreover have "begin_index default_config i = i - 240"
    by (simp add: begin_index_def default_config_fields)
  ultimately show ?thesis using assms(1) by arith
qed

lemma evaluated_level_shift:
  assumes "100 \<le> i" and "i < 341"
  shows "evaluated default_config level_shift_rows i"
proof -
  have "\<forall>s\<in>set level_shift_rows. raw s \<noteq> None"
    by (auto simp: level_shift_rows_def reading_def)
  then have "\<forall>s\<in>set (window default_config level_shift_rows i). raw s \<noteq> None"
    by (auto simp: window_def slice_def dest: in_set_takeD in_set_dropD)
  then have "nValid (window default_config level_shift_rows i)
      = length (window default_config level_shift_rows i)"
    by (simp add: nValid_def)
  moreover have "99 \<le> length (window default_config level_shift_rows i)"
    using length_window_default[of i level_shift_rows] assms length_level_shift_rows by simp
  ultimately show ?thesis using assms(1) by (simp add: evaluated_def default_config_fields)
qed

lemma round3_1: "round3 1 = 1"
  by (simp add: round3_def rint_def)

lemma scan_body_level_shift:
  assumes "length st = 341" and "100 \<le> i" and "i < 341"
    and "\<forall>j. 100 \<le> j \<and> j < i \<longrightarrow> st ! j"
  shows "scan_body default_config level_shift_rows i st = Inr (st[i := True])"
proof -
  let ?sub = "window default_config level_shift_rows i"
  let ?prev = "window default_config st i"
  have len: "length ?prev = length ?sub"
    by (rule length_window) (simp add: assms(1) length_level_shift_rows)
  obtain ms where ms: "finite_unflagged ?sub ?prev = Inr ms"
    using finite_unflagged_total[OF len] by blast
  obtain lower upper where b: "build_histogram default_config ?sub ?prev = Inr (lower, upper)"
    using build_histogram_total[OF _ len, of default_config]
    by (auto simp: default_config_fields)
  have zero: "set (select_values (map raw ?sub) ms) \<subseteq> {0}"
  proof
    fix v assume "v \<in> set (select_values (map raw ?sub) ms)"
    then obtain k where k: "k < length (map raw ?sub)" "k < length ms"
      and r: "map raw ?sub ! k = Some v" and m: "ms ! k"
      using select_values_mem by blast
    have ks: "k < length ?sub" using k(1) by simp
    have kp: "k < length ?prev" using ks len by simp
    have il: "i \<le> length level_shift_rows" "i \<le> length st"
      using assms(1,3) length_level_shift_rows by simp_all
    define j where "j = begin_index default_config i + k"
    have ji: "j < i - 1" unfolding j_def by (rule window_nth(2)[OF il(1) ks])
    have sj: "?sub ! k = level_shift_rows ! j"
      unfolding j_def by (rule window_nth(1)[OF il(1) ks])
    have pj: "?prev ! k = st ! j"
      unfolding j_def by (rule window_nth(1)[OF il(2) kp])
    have "\<not> ?prev ! k" using finite_unflagged_nth[OF ms len ks] m by simp
    then have "\<not> st ! j" using pj by simp
    moreover have "j < i" using ji by arith
    ultimately have "j < 100" using assms(4) by (meson not_le_imp_less)
    then have "level_shift_rows ! j = reading 0" using level_shift_rows_nth[of j] by simp
    then have "raw (?sub ! k) = Some 0" using sj by (simp add: reading_def)
    then have "v = 0" using r ks by simp
    then show "v \<in> {0}" by simp
  qed
  have "upper \<le> round3 (snd (outer_edges (select_values (map raw ?sub) ms))) + buffer default_config"
    by (rule build_histogram_within(2)[OF b ms]) (simp add: default_config_fields)
  moreover have "round3 (snd (outer_edges (select_values (map raw ?sub) ms))) \<le> round3 1"
    by (rule round3_mono[OF outer_edges_zeros[OF zero]])
  ultimately have u: "upper < 1000" by (simp add: round3_1 default_config_fields)
  have "raw (level_shift_rows ! i) = Some 1000"
    using level_shift_rows_nth[of i] assms(2,3) by (simp add: reading_def)
  then have c: "classify (raw (level_shift_rows ! i)) (lower, upper) = True"
    using u by (simp add: classify_def)
  have e: "\<not> int (nValid ?sub) < min_entries default_config - 1"
    and w: "\<not> int i < min_entries default_config"
    using evaluated_level_shift[OF assms(2,3)] by (simp_all add: evaluated_def)
  show ?thesis unfolding scan_body_def Let_def using e w b c by simp
qed

lemma scan_loop_level_shift:
  assumes "length st = 341" and "100 \<le> i" and "i \<le> 341"
    and "\<forall>j. 100 \<le> j \<and> j < i \<longrightarrow> st ! j"
    and "n = 341 - i"
  shows "\<exists>ls. scan_loop default_config level_shift_rows [i..<341] st = Inr ls
           \<and> length ls = 341 \<and> (\<forall>j<i. ls ! j = st ! j) \<and> (\<forall>j. i \<le> j \<and> j < 341 \<longrightarrow> ls ! j)"
  using assms
proof (induction n arbitrary: i st)
  case 0
  then have "i = 341" by simp
  moreover have "\<forall>j. (341::nat) \<le> j \<and> j < 341 \<longrightarrow> st ! j" by arith
  ultimately show ?case using "0.prems"(1) by simp
next
  case (Suc n)
  then have i: "i < 341" by simp
  have u: "[i..<341] = i # [Suc i..<341]" using i by (simp add: upt_conv_Cons)
  have b: "scan_body default_config level_shift_rows i st = Inr (st[i := True])"
    using scan_body_level_shift[OF Suc.prems(1,2) i Suc.prems(4)] .
  have inv: "\<forall>j. 100 \<le> j \<and> j < Suc i \<longrightarrow> st[i := True] ! j"
    using Suc.prems(1,4) i by (auto simp: nth_list_update less_Suc_eq)
  obtain ls where ls: "scan_loop default_config level_shift_rows [Suc i..<341] (st[i := True]) = Inr ls"
    and l: "length ls = 341" and k: "\<forall>j<Suc i. ls ! j = st[i := True] ! j"
    and t: "\<forall>j. Suc i \<le> j \<and> j < 341 \<longrightarrow> ls ! j"
  proof -
    have "length (st[i := True]) = 341" using Suc.prems(1) by simp
    moreover have "100 \<le> Suc i" "Suc i \<le> 341" using Suc.prems(2) i by arith+
    moreover have "n = 341 - Suc i" using Suc.prems(5) by arith
    ultimately show ?thesis using Suc.IH[of "st[i := True]" "Suc i"] inv that by blast
  qed
  have "scan_loop default_config level_shift_rows [i..<341] st = Inr ls"
    unfolding u using b ls by simp
  moreover have "\<forall>j<i. ls ! j = st ! j" using k by (auto simp: nth_list_update)
  moreover have "ls ! i" using k Suc.prems(1) i by (simp add: nth_list_update)
  then have "\<forall>j. i \<le> j \<and> j < 341 \<longrightarrow> ls ! j"
    using t by (metis Suc_leI le_neq_implies_less)
  ultimately show ?case using l by blast
qed

lemma scan_loop_warmup_only:
  "\<forall>i\<in>set is. int i < min_entries cfg \<Longrightarrow> scan_loop cfg data is st = Inr st"
  by (induction "is") (simp_all add: scan_body_warmup)

lemma scan_level_shift:
  "scan default_config level_shift_rows = Inr (replicate 100 False @ replicate 241 True)"
proof -
  let ?st = "replicate 341 False"
  have u: "[0..<341] = [0..<100] @ [100..<341]"
    using upt_add_eq_append[of 0 100 241] by simp
  have w: "scan_loop default_config level_shift_rows [0..<100] ?st = Inr ?st"
    by (rule scan_loop_warmup_only) (simp add: default_config_fields)
  obtain ls where ls: "scan_loop default_config level_shift_rows [100..<341] ?st = Inr ls"
    and l: "length ls = 341" and k: "\<forall>j<100. ls ! j = ?st ! j"
    and t: "\<forall>j. 100 \<le> j \<and> j < 341 \<longrightarrow> ls ! j"
    using scan_loop_level_shift[of ?st 100 241] by auto
  have "ls = replicate 100 False @ replicate 241 True"
  proof (rule nth_equalityI)
    show "length ls = length (replicate 100 False @ replicate 241 True)" using l by simp
  next
    fix j assume "j < length ls"
    then have j: "j < 341" using l by simp
    show "ls ! j = (replicate 100 False @ replicate 241 True) ! j"
    proof (cases "j < 100")
      case True
      then show ?thesis using k by (simp add: nth_append)
    next
      case False
      then show ?thesis using t j by (simp add: nth_append)
    qed
  qed
  then show ?thesis
    unfolding scan_def length_level_shift_rows u scan_loop_append w using ls by (simp add: bind_def)
qed

lemma select_values_none: "\<forall>m\<in>set ms. \<not> m \<Longrightarrow> select_values rs ms = []"
  by (induction rs ms rule: select_values.induct) auto

lemma histogram_empty: "0 < n \<Longrightarrow> histogram [] n = Inr (replicate n 0, linspace 0 1 n)"
proof -
  assume n: "0 < n"
  have "map (\<lambda>k. 0) [0..<n] = replicate n (0::nat)"
    by (rule nth_equalityI) simp_all
  then show ?thesis using n by (simp add: histogram_def outer_edges_def)
qed

lemma build_histogram_empty_default:
  assumes "finite_unflagged subdata previous_spikes = Inr ms"
    and "select_values (map raw subdata) ms = []"
  shows "build_histogram default_config subdata previous_spikes = Inr (- (18 / 125), 143 / 125)"
proof -
  have c: "np_cdf (replicate 80 0) = None" by (simp add: np_cdf_def)
  have mm: "Min (set (bincenters (linspace 0 1 80))) = 1 / 160"
    "Max (set (bincenters (linspace 0 1 80))) = 159 / 160"
    using bincenters_Min_Max[of 0 1 80] by simp_all
  have i: "icdf_bounds default_config (replicate 80 0) (linspace 0 1 80) = (1 / 160, 159 / 160)"
    unfolding icdf_bounds_def Let_def c interp1d_def option.case mm ..
  have r: "round3 (1 / 160) = 6 / 1000" "round3 (159 / 160) = 994 / 1000"
    by (simp_all add: round3_def rint_def)
  have h: "histogram [] 80 = Inr (replicate 80 0, linspace 0 1 80)"
    by (rule histogram_empty) simp
  show ?thesis
    unfolding build_histogram_def assms sum.case default_config_fields h prod.case i
    by (simp add: r)
qed

lemma window_level_shift_340:
  "window default_config (replicate 100 a @ replicate 241 b) 340 = replicate 239 b"
  by (simp add: window_def slice_def begin_index_def end_index_def default_config_fields)

text \<open>
  C3 on the constants of the file. After 100 rows at level 0 the level stays at 1000: every
  row from 100 on is labelled a spike, so at row 340 the window (rows 100 to 338) holds
  239 finite readings, all of them flagged. The row is evaluated, the filter leaves no
  value, \<open>build_histogram\<close> returns the interval \<open>(-0.144, 1.144)\<close> of an empty histogram,
  and the row is labelled True.
\<close>

theorem empty_window_is_classified:
  "scan default_config level_shift_rows = Inr (replicate 100 False @ replicate 241 True) \<and>
   evaluated default_config level_shift_rows 340 \<and>
   finite_unflagged (window default_config level_shift_rows 340)
     (window default_config (replicate 100 False @ replicate 241 True) 340)
     = Inr (replicate 239 False) \<and>
   select_values (map raw (window default_config level_shift_rows 340)) (replicate 239 False) = [] \<and>
   build_histogram default_config (window default_config level_shift_rows 340)
     (window default_config (replicate 100 False @ replicate 241 True) 340)
     = Inr (- (18 / 125), 143 / 125) \<and>
   (replicate 100 False @ replicate 241 True) ! 340 = True"
proof -
  have e: "evaluated default_config level_shift_rows 340"
    by (rule evaluated_level_shift) simp_all
  have w1: "window default_config level_shift_rows 340 = replicate 239 (reading 1000)"
    unfolding level_shift_rows_def by (rule window_level_shift_340)
  have w2: "window default_config (replicate 100 False @ replicate 241 True) 340
      = replicate 239 True"
    by (rule window_level_shift_340)
  have f: "finite_unflagged (replicate 239 (reading 1000)) (replicate 239 True)
      = Inr (replicate 239 False)"
    by (simp add: finite_unflagged_def reading_def)
  have s: "select_values (map raw (replicate 239 (reading 1000))) (replicate 239 False) = []"
    by (rule select_values_none) simp
  have b: "build_histogram default_config (replicate 239 (reading 1000)) (replicate 239 True)
      = Inr (- (18 / 125), 143 / 125)"
    by (rule build_histogram_empty_default[OF f s])
  have l: "(replicate 100 False @ replicate 241 True) ! 340 = True"
    by (simp add: nth_append)
  show ?thesis unfolding w1 w2 using scan_level_shift e f s b l by blast
qed

end
